theory Spec2Isabelle
  imports Main "HOL-Library.Word"
begin

section \<open>Shape refinement: assertion discharge and static-shape audit\<close>

text \<open>
  A shallow embedding of \<^verbatim>\<open>refine_polymorphic_shapes.cc\<close>: the pass
  \<^verbatim>\<open>CheckShapeAssertionsPass\<close> (its walk callback, \<^verbatim>\<open>verifyShapeAssertion\<close>,
  \<^verbatim>\<open>formatErrorMessage\<close>), \<^verbatim>\<open>RefinePolymorphicShapes\<close> and
  \<^verbatim>\<open>ValidateStaticShapes\<close>.

  A function that can abort (a failed \<^verbatim>\<open>cast\<close>, an uncaught C++ exception, an
  out-of-range read of a vector) returns an \<open>option\<close>, \<open>None\<close> being the abort.
\<close>

subsection \<open>Strings and numbers\<close>

text \<open>
  \<^verbatim>\<open>StringRef::data()\<close> hands out a \<^verbatim>\<open>const char *\<close>; the \<^verbatim>\<open>std::string\<close> and the
  \<^verbatim>\<open>formatv\<close> format built from it end at the first NUL byte.
\<close>

definition data_cstr :: "string \<Rightarrow> string" where
  "data_cstr s = takeWhile (\<lambda>c. c \<noteq> CHR 0x00) s"

definition is_digit :: "char \<Rightarrow> bool" where
  "is_digit c = (48 \<le> (of_char c :: nat) \<and> (of_char c :: nat) \<le> 57)"

definition digit_value :: "char \<Rightarrow> nat" where
  "digit_value c = of_char c - 48"

definition digits_value :: "string \<Rightarrow> int" where
  "digits_value ds = foldl (\<lambda>a c. 10 * a + int (digit_value c)) 0 ds"

definition digit_char :: "nat \<Rightarrow> char" where
  "digit_char n = char_of (48 + n)"

fun string_of_nat :: "nat \<Rightarrow> string" where
  "string_of_nat n =
     (if n < 10 then [digit_char n] else string_of_nat (n div 10) @ [digit_char (n mod 10)])"

declare string_of_nat.simps [simp del]

text \<open>The decimal digits of an integer that is not negative, and a signed decimal.\<close>

function decimal_digits :: "int \<Rightarrow> string" where
  "decimal_digits n =
     (if n < 10 then [digit_char (nat n)]
      else decimal_digits (n div 10) @ [digit_char (nat (n mod 10))])"
  by pat_completeness auto
termination
  by (relation "measure nat") auto

declare decimal_digits.simps [simp del]


text \<open>The values \<^verbatim>\<open>matchInts\<close> yields are \<^verbatim>\<open>int64_t\<close>; they are printed as signed decimals.\<close>

type_synonym int64 = "64 word"


text \<open>
  \<^verbatim>\<open>std::stoi\<close> on a run of digits followed by a character that is no digit: the value,
  or the exception \<^verbatim>\<open>std::out_of_range\<close> (nothing catches it) when it does not fit an
  \<^verbatim>\<open>int\<close>.
\<close>

definition stoi :: "string \<Rightarrow> int option" where
  "stoi ds = (let v = digits_value ds in if v \<le> 2147483647 then Some v else None)"

subsection \<open>Placeholders of the error message\<close>

text \<open>
  \<^verbatim>\<open>llvm::Regex("{([0-9]+)[,:}]").match\<close>: the leftmost occurrence of an opening brace, one
  or more digits and one of \<^verbatim>\<open>, : }\<close>. The result is the text before the match, the
  digits (\<^verbatim>\<open>formatSpec[1]\<close>), the closing character and the text after the match;
  \<^verbatim>\<open>formatSpec[0]\<close> is brace, digits and closing character.
\<close>

definition is_spec_end :: "char \<Rightarrow> bool" where
  "is_spec_end c = (c = CHR '','' \<or> c = CHR '':'' \<or> c = CHR ''}'')"

definition spec_here :: "string \<Rightarrow> (string \<times> char \<times> string) option" where
  "spec_here cs =
     (let ds = takeWhile is_digit cs in
      case dropWhile is_digit cs of
        [] \<Rightarrow> None
      | e # rest \<Rightarrow> if ds \<noteq> [] \<and> is_spec_end e then Some (ds, e, rest) else None)"

fun regex_match :: "string \<Rightarrow> (string \<times> string \<times> char \<times> string) option" where
  "regex_match [] = None"
| "regex_match (c # cs) =
     (case (if c = CHR ''{'' then spec_here cs else None) of
        Some (ds, e, rest) \<Rightarrow> Some ([], ds, e, rest)
      | None \<Rightarrow>
          (case regex_match cs of
             None \<Rightarrow> None
           | Some (pre, ds, e, rest) \<Rightarrow> Some (c # pre, ds, e, rest)))"

definition whole_match :: "string \<Rightarrow> char \<Rightarrow> string" where
  "whole_match ds e = CHR ''{'' # ds @ [e]"

text \<open>\<^verbatim>\<open>formatSpecifierRE.sub("", errorMessage)\<close> removes that first match.\<close>

definition regex_sub_empty :: "string \<Rightarrow> string" where
  "regex_sub_empty s = (case regex_match s of None \<Rightarrow> s | Some (pre, ds, e, rest) \<Rightarrow> pre @ rest)"

datatype logical_result = success | failure (diagnostic_text: string)

definition bad_specifier_message :: "nat \<Rightarrow> string \<Rightarrow> string" where
  "bad_specifier_message nrErrorMessageInputs spec =
     ''expects error_message to contain format specifiers with error_message_input index less than ''
       @ string_of_nat nrErrorMessageInputs @ ''. Found specifier '' @ spec"

text \<open>
  The \<^verbatim>\<open>do ... while (true)\<close> loop at the end of \<^verbatim>\<open>verifyShapeAssertion\<close>, on the working
  copy \<^verbatim>\<open>errorMessage\<close>.
\<close>

function check_format_specifiers :: "nat \<Rightarrow> string \<Rightarrow> logical_result option" where
  "check_format_specifiers nrErrorMessageInputs errorMessage =
     (case regex_match errorMessage of
        None \<Rightarrow> Some success
      | Some (pre, ds, e, rest) \<Rightarrow>
          (case stoi ds of
             None \<Rightarrow> None
           | Some index \<Rightarrow>
               if \<not> (0 \<le> index \<and> index < int nrErrorMessageInputs)
               then Some (failure (bad_specifier_message nrErrorMessageInputs (whole_match ds e)))
               else check_format_specifiers nrErrorMessageInputs (regex_sub_empty errorMessage)))"
  by pat_completeness auto
termination
proof -
  have shorter: "length pre + length rest < length s"
    if "regex_match s = Some (pre, ds, e, rest)" for s pre ds e rest
    using that
  proof (induction s arbitrary: pre)
    case Nil
    then show ?case by simp
  next
    case (Cons c cs)
    show ?case
    proof (cases "if c = CHR ''{'' then spec_here cs else None")
      case None
      with Cons.prems obtain pre' where
        m: "regex_match cs = Some (pre', ds, e, rest)" and p: "pre = c # pre'"
        by (auto split: option.splits)
      from Cons.IH [OF m] p show ?thesis by simp
    next
      case (Some t)
      with Cons.prems have p: "pre = []" and h: "spec_here cs = Some (ds, e, rest)"
        by (auto split: if_splits prod.splits)
      from h have "dropWhile is_digit cs = e # rest"
        by (auto simp: spec_here_def Let_def split: list.splits if_splits)
      then have "length rest < length cs"
        using length_dropWhile_le [of is_digit cs] by simp
      with p show ?thesis by simp
    qed
  qed
  show ?thesis
    by (relation "measure (\<lambda>(n, s). length s)")
       (auto simp: regex_sub_empty_def dest: shorter)
qed

declare check_format_specifiers.simps [simp del]

subsection \<open>Formatting the message\<close>

text \<open>
  The parts of \<^verbatim>\<open>llvm::formatv\<close>, which is library code: the texts it trims, the integers
  it reads, the items it splits a format into, and the way it prints an \<^verbatim>\<open>int64_t\<close>.
\<close>

definition is_space :: "char \<Rightarrow> bool" where
  "is_space c = (c \<in> set [CHR '' '', CHR 0x09, CHR 0x0A, CHR 0x0B, CHR 0x0C, CHR 0x0D])"

definition trim_chars :: "(char \<Rightarrow> bool) \<Rightarrow> string \<Rightarrow> string" where
  "trim_chars P s = rev (dropWhile P (rev (dropWhile P s)))"

definition trim :: "string \<Rightarrow> string" where
  "trim s = trim_chars is_space s"

text \<open>
  \<^verbatim>\<open>StringRef::consumeInteger\<close> through \<^verbatim>\<open>consumeUnsignedInteger\<close>: the value (\<open>None\<close> when
  the call reports a failure) and the text left in the \<^verbatim>\<open>StringRef\<close>, which has lost a
  radix prefix even when the call fails. The arithmetic is that of
  \<^verbatim>\<open>unsigned long long\<close>.
\<close>

definition char_value :: "char \<Rightarrow> int option" where
  "char_value c =
     (let n = (of_char c :: nat) in
      if 48 \<le> n \<and> n \<le> 57 then Some (int n - 48)
      else if 97 \<le> n \<and> n \<le> 122 then Some (int n - 97 + 10)
      else if 65 \<le> n \<and> n \<le> 90 then Some (int n - 65 + 10)
      else None)"

definition GetAutoSenseRadix :: "string \<Rightarrow> int \<times> string" where
  "GetAutoSenseRadix Str =
     (if Str = [] then (10, Str)
      else if take 2 Str = ''0x'' \<or> take 2 Str = ''0X'' then (16, drop 2 Str)
      else if take 2 Str = ''0b'' \<or> take 2 Str = ''0B'' then (2, drop 2 Str)
      else if take 2 Str = ''0o'' then (8, drop 2 Str)
      else if hd Str = CHR ''0'' \<and> length Str > 1 \<and> is_digit (Str ! 1) then (8, drop 1 Str)
      else (10, Str))"

fun consume_digits :: "int \<Rightarrow> int \<Rightarrow> string \<Rightarrow> (int \<times> string) option" where
  "consume_digits Radix Result [] = Some (Result, [])"
| "consume_digits Radix Result (c # Str2) =
     (case char_value c of
        None \<Rightarrow> Some (Result, c # Str2)
      | Some CharVal \<Rightarrow>
          if CharVal \<ge> Radix then Some (Result, c # Str2)
          else (let Result' = (Result * Radix + CharVal) mod 18446744073709551616 in
                if Result' div Radix < Result then None
                else consume_digits Radix Result' Str2))"

definition consumeUnsignedInteger :: "int \<Rightarrow> string \<Rightarrow> int option \<times> string" where
  "consumeUnsignedInteger Radix Str =
     (case (if Radix = 0 then GetAutoSenseRadix Str else (Radix, Str)) of
        (Radix', Str1) \<Rightarrow>
          if Str1 = [] then (None, Str1)
          else (case consume_digits Radix' 0 Str1 of
                  None \<Rightarrow> (None, Str1)
                | Some (Result, Str2) \<Rightarrow>
                    if length Str1 = length Str2 then (None, Str1) else (Some Result, Str2)))"

datatype align_style = AlignLeft | AlignCenter | AlignRight

definition translateLocChar :: "char \<Rightarrow> align_style option" where
  "translateLocChar C =
     (if C = CHR ''-'' then Some AlignLeft
      else if C = CHR ''='' then Some AlignCenter
      else if C = CHR ''+'' then Some AlignRight
      else None)"

text \<open>\<^verbatim>\<open>consumeFieldLayout\<close>: where, how wide, the pad character, and the text left.\<close>

definition consumeFieldLayout :: "string \<Rightarrow> align_style \<times> nat \<times> char \<times> string" where
  "consumeFieldLayout Spec =
     (if Spec = [] then (AlignRight, 0, CHR '' '', Spec)
      else case (if length Spec > 1
                 then (case translateLocChar (Spec ! 1) of
                         Some Loc \<Rightarrow> (Spec ! 0, Loc, drop 2 Spec)
                       | None \<Rightarrow>
                           (case translateLocChar (Spec ! 0) of
                              Some Loc \<Rightarrow> (CHR '' '', Loc, drop 1 Spec)
                            | None \<Rightarrow> (CHR '' '', AlignRight, Spec)))
                 else (CHR '' '', AlignRight, Spec)) of
        (Pad, Where, Spec1) \<Rightarrow>
          (case consumeUnsignedInteger 0 Spec1 of
             (None, Spec2) \<Rightarrow> (Where, 0, Pad, Spec2)
           | (Some Align, Spec2) \<Rightarrow> (Where, nat Align, Pad, Spec2)))"

text \<open>
  A \<^verbatim>\<open>ReplacementItem\<close>: empty, a literal, or a format with the text between the braces,
  the index, the width, the alignment, the pad character and the options.
\<close>

datatype replacement_item =
  EmptyItem
| LiteralItem string
| FormatItem string nat nat align_style char string

definition parseReplacementItem :: "string \<Rightarrow> replacement_item" where
  "parseReplacementItem Spec =
     (case consumeUnsignedInteger 0
             (trim (trim_chars (\<lambda>c. c = CHR ''{'' \<or> c = CHR ''}'') Spec)) of
        (None, RepString) \<Rightarrow> EmptyItem
      | (Some Index, RepString) \<Rightarrow>
          (case (if trim RepString \<noteq> [] \<and> hd (trim RepString) = CHR '',''
                 then consumeFieldLayout (tl (trim RepString))
                 else (AlignRight, 0, CHR '' '', trim RepString)) of
             (Where, Align, Pad, RepString') \<Rightarrow>
               FormatItem Spec (nat Index) Align Where Pad
                 (if trim RepString' \<noteq> [] \<and> hd (trim RepString') = CHR '':''
                  then trim (tl (trim RepString')) else [])))"

fun find_first_of :: "char \<Rightarrow> string \<Rightarrow> nat option" where
  "find_first_of c [] = None"
| "find_first_of c (x # xs) = (if x = c then Some 0 else map_option Suc (find_first_of c xs))"

text \<open>
  \<^verbatim>\<open>splitLiteralAndReplacement\<close> on a text that is not empty: the next item and the text
  after it.
\<close>

definition splitLiteralAndReplacement :: "string \<Rightarrow> replacement_item \<times> string" where
  "splitLiteralAndReplacement Fmt =
     (if hd Fmt \<noteq> CHR ''{''
      then (LiteralItem (takeWhile (\<lambda>c. c \<noteq> CHR ''{'') Fmt), dropWhile (\<lambda>c. c \<noteq> CHR ''{'') Fmt)
      else if length (takeWhile (\<lambda>c. c = CHR ''{'') Fmt) > 1
      then (let NumEscapedBraces = length (takeWhile (\<lambda>c. c = CHR ''{'') Fmt) div 2
            in (LiteralItem (take NumEscapedBraces Fmt), drop (NumEscapedBraces * 2) Fmt))
      else case find_first_of (CHR ''}'') Fmt of
             None \<Rightarrow> (LiteralItem Fmt, [])
           | Some BC \<Rightarrow>
               (case map_option Suc (find_first_of (CHR ''{'') (tl Fmt)) of
                  None \<Rightarrow> (parseReplacementItem (drop 1 (take BC Fmt)), drop (BC + 1) Fmt)
                | Some BO2 \<Rightarrow>
                    if BO2 < BC then (LiteralItem (take BO2 Fmt), drop BO2 Fmt)
                    else (parseReplacementItem (drop 1 (take BC Fmt)), drop (BC + 1) Fmt)))"

function parseFormatString :: "string \<Rightarrow> replacement_item list" where
  "parseFormatString Fmt =
     (if Fmt = [] then []
      else case splitLiteralAndReplacement Fmt of
             (I, Fmt') \<Rightarrow> (if I \<noteq> EmptyItem then [I] else []) @ parseFormatString Fmt')"
  by pat_completeness auto
termination
proof -
  have shorter: "length Fmt' < length Fmt"
    if "Fmt \<noteq> []" and "(I, Fmt') = splitLiteralAndReplacement Fmt" for Fmt I Fmt'
  proof (cases Fmt)
    case Nil
    with that show ?thesis by simp
  next
    case (Cons c cs)
    have le: "length (dropWhile (\<lambda>c. c \<noteq> CHR ''{'') cs) \<le> length cs"
      by (rule length_dropWhile_le)
    have two: "2 \<le> length (takeWhile (\<lambda>c. c = CHR ''{'') Fmt) div 2 * 2"
      if "1 < length (takeWhile (\<lambda>c. c = CHR ''{'') Fmt)"
      using that by presburger
    from that(2) Cons le two show ?thesis
      by (auto simp: splitLiteralAndReplacement_def Let_def
          split: if_splits option.splits)
  qed
  show ?thesis
    by (relation "measure length") (auto dest: shorter)
qed

declare parseFormatString.simps [simp del]

text \<open>
  The integer format provider: \<^verbatim>\<open>write_hex\<close> of the value as \<^verbatim>\<open>uint64_t\<close> for a style
  that begins with \<^verbatim>\<open>x\<close> or \<^verbatim>\<open>X\<close>, \<^verbatim>\<open>write_integer\<close> otherwise.
\<close>

datatype hex_print_style = Upper | Lower | PrefixUpper | PrefixLower

datatype integer_style = Integer | Number

definition hexdigit :: "int \<Rightarrow> bool \<Rightarrow> char" where
  "hexdigit x LowerCase =
     (if x < 10 then char_of (48 + x) else char_of ((if LowerCase then 97 else 65) + (x - 10)))"

function hex_digits :: "int \<Rightarrow> bool \<Rightarrow> string" where
  "hex_digits N LowerCase =
     (if N \<le> 0 then [] else hex_digits (N div 16) LowerCase @ [hexdigit (N mod 16) LowerCase])"
  by pat_completeness auto
termination
  by (relation "measure (\<lambda>(N, l). nat N)") auto

declare hex_digits.simps [simp del]

definition isPrefixedHexStyle :: "hex_print_style \<Rightarrow> bool" where
  "isPrefixedHexStyle S = (S = PrefixLower \<or> S = PrefixUpper)"

definition write_hex :: "int \<Rightarrow> hex_print_style \<Rightarrow> nat \<Rightarrow> string" where
  "write_hex N Style Width =
     (let W = min 128 Width;
          digits = hex_digits N (\<not> (Style = Upper \<or> Style = PrefixUpper));
          Nibbles = length digits;
          PrefixChars = (if isPrefixedHexStyle Style then 2 else 0);
          NumChars = max W (max 1 Nibbles + PrefixChars)
      in (if isPrefixedHexStyle Style then ''0x'' else [])
           @ replicate (NumChars - PrefixChars - Nibbles) (CHR ''0'') @ digits)"

text \<open>
  \<^verbatim>\<open>writeWithCommas\<close>: the leading one to three digits, then each group of three after a
  comma.
\<close>

fun comma_groups :: "string \<Rightarrow> string" where
  "comma_groups (a # b # c # Buffer) = CHR '','' # a # b # c # comma_groups Buffer"
| "comma_groups Buffer = Buffer"

definition writeWithCommas :: "string \<Rightarrow> string" where
  "writeWithCommas Buffer =
     (let InitialDigits = ((length Buffer - 1) mod 3) + 1
      in take InitialDigits Buffer @ comma_groups (drop InitialDigits Buffer))"

definition write_integer :: "int \<Rightarrow> nat \<Rightarrow> integer_style \<Rightarrow> string" where
  "write_integer N MinDigits Style =
     (let digits = decimal_digits \<bar>N\<bar>; Len = length digits
      in (if N < 0 then ''-'' else [])
           @ (if Len < MinDigits \<and> Style \<noteq> Number then replicate (MinDigits - Len) (CHR ''0'') else [])
           @ (if Style = Number then writeWithCommas digits else digits))"

definition consumeHexStyle :: "string \<Rightarrow> (hex_print_style \<times> string) option" where
  "consumeHexStyle Str =
     (if \<not> (take 1 Str = ''x'' \<or> take 1 Str = ''X'') then None
      else if take 2 Str = ''x-'' then Some (Lower, drop 2 Str)
      else if take 2 Str = ''X-'' then Some (Upper, drop 2 Str)
      else if take 2 Str = ''x+'' then Some (PrefixLower, drop 2 Str)
      else if take 1 Str = ''x'' then Some (PrefixLower, drop 1 Str)
      else if take 2 Str = ''X+'' then Some (PrefixUpper, drop 2 Str)
      else Some (PrefixUpper, drop 1 Str))"

definition consumeNumHexDigits :: "string \<Rightarrow> hex_print_style \<Rightarrow> int \<Rightarrow> nat" where
  "consumeNumHexDigits Str Style Default =
     (let Digits = (case consumeUnsignedInteger 10 Str of (Some d, rest) \<Rightarrow> d | (None, rest) \<Rightarrow> Default)
      in nat (if isPrefixedHexStyle Style then (Digits + 2) mod 18446744073709551616 else Digits))"

definition format_int64 :: "int64 \<Rightarrow> string \<Rightarrow> string" where
  "format_int64 V Style =
     (case consumeHexStyle Style of
        Some (HS, Style') \<Rightarrow> write_hex (uint V) HS (consumeNumHexDigits Style' HS 0)
      | None \<Rightarrow>
          (case (if take 1 Style = ''N'' \<or> take 1 Style = ''n'' then (Number, drop 1 Style)
                 else if take 1 Style = ''D'' \<or> take 1 Style = ''d'' then (Integer, drop 1 Style)
                 else (Integer, Style)) of
             (IS, Style') \<Rightarrow>
               write_integer (sint V)
                 (case consumeUnsignedInteger 10 Style' of (Some d, rest) \<Rightarrow> nat d | (None, rest) \<Rightarrow> 0)
                 IS))"

text \<open>\<^verbatim>\<open>FmtAlign::format\<close>: the item, padded to the width when it is shorter.\<close>

definition fmt_align :: "align_style \<Rightarrow> nat \<Rightarrow> char \<Rightarrow> string \<Rightarrow> string" where
  "fmt_align Where Amount Pad Item =
     (if Amount = 0 then Item
      else if Amount \<le> length Item then Item
      else (let PadAmount = Amount - length Item in
            case Where of
              AlignLeft \<Rightarrow> Item @ replicate PadAmount Pad
            | AlignCenter \<Rightarrow>
                replicate (PadAmount div 2) Pad @ Item @ replicate (PadAmount - PadAmount div 2) Pad
            | AlignRight \<Rightarrow> replicate PadAmount Pad @ Item))"

text \<open>The loop of \<^verbatim>\<open>formatv_object_base::format\<close> over the items, on one item.\<close>

fun format_item :: "int64 list \<Rightarrow> replacement_item \<Rightarrow> string" where
  "format_item vals EmptyItem = []"
| "format_item vals (LiteralItem Spec) = Spec"
| "format_item vals (FormatItem Spec Index Align Where Pad Options) =
     (if Index \<ge> length vals then Spec
      else fmt_align Where Align Pad (format_int64 (vals ! Index) Options))"

text \<open>
  Modelled from the spec: \<^verbatim>\<open>llvm::formatv\<close> is library code, not among the sources. The
  specification says what a placeholder is (section 3: an index, then an optional layout
  after a comma and an optional format after a colon) and that it is replaced by the
  decimal rendering of the input it names (section 4.1). What it leaves open follows the
  library (\<^verbatim>\<open>FormatVariadic\<close>, \<^verbatim>\<open>FormatProviders\<close>, \<^verbatim>\<open>NativeFormatting\<close> and \<^verbatim>\<open>StringRef\<close>
  of LLVM), for arguments of type \<^verbatim>\<open>int64_t\<close> and with the library's assertions compiled
  out: a doubled opening brace is an escaped brace, an opening brace with no closing one
  makes the rest a literal, a replacement whose index cannot be read prints nothing, one
  whose index names no argument prints its own text without the braces, the layout pads,
  and the format chooses decimal, grouped or hexadecimal digits.
\<close>

definition formatv :: "string \<Rightarrow> int64 list \<Rightarrow> string" where
  "formatv Fmt vals = concat (map (format_item vals) (parseFormatString Fmt))"

text \<open>\<^verbatim>\<open>formatErrorMessage\<close>: the \<^verbatim>\<open>switch\<close> on the number of inputs.\<close>

definition formatErrorMessage :: "string \<Rightarrow> int64 list \<Rightarrow> string" where
  "formatErrorMessage errorMessage errorMessageInputs =
     (let errorMessageFormat = data_cstr errorMessage in
      case errorMessageInputs of
        [] \<Rightarrow> errorMessageFormat
      | [a] \<Rightarrow> formatv errorMessageFormat [a]
      | [a, b] \<Rightarrow> formatv errorMessageFormat [a, b]
      | [a, b, c] \<Rightarrow> formatv errorMessageFormat [a, b, c]
      | [a, b, c, d] \<Rightarrow> formatv errorMessageFormat [a, b, c, d]
      | _ \<Rightarrow> errorMessageFormat)"






subsection \<open>The program representation\<close>

text \<open>
  Types as far as the code inspects them: whether a type is a \<^verbatim>\<open>ShapedType\<close>, its
  shape (\<open>None\<close> when unranked) and its element type.
\<close>

datatype signedness = Signless | Signed | Unsigned

datatype element_type = IntegerType signedness nat | OtherElementType

datatype dimension = StaticDim nat | DynamicDim

datatype mlir_type = ShapedType "dimension list option" element_type | OtherType

fun hasStaticShape :: "mlir_type \<Rightarrow> bool" where
  "hasStaticShape (ShapedType (Some dims) e) = list_all (\<lambda>d. d \<noteq> DynamicDim) dims"
| "hasStaticShape (ShapedType None e) = False"
| "hasStaticShape OtherType = False"

text \<open>
  The lambda \<^verbatim>\<open>hasDynamicShape\<close> of \<^verbatim>\<open>ValidateStaticShapes\<close>, on the type of the value.
\<close>

fun hasDynamicShape :: "mlir_type \<Rightarrow> bool" where
  "hasDynamicShape OtherType = False"
| "hasDynamicShape shaped_type = (\<not> hasStaticShape shaped_type)"

text \<open>
  The test both operand checks of \<^verbatim>\<open>verifyShapeAssertion\<close> make: a shaped type, ranked,
  of rank 0, whose element type is a signless integer of one of the given widths.
\<close>

fun is_scalar_signless :: "nat list \<Rightarrow> mlir_type \<Rightarrow> bool" where
  "is_scalar_signless widths (ShapedType (Some dims) (IntegerType Signless w)) =
     (length dims = 0 \<and> w \<in> set widths)"
| "is_scalar_signless widths t = False"

text \<open>
  An operand is an SSA value: its type and, when a constant operation with integer
  elements defines it, those elements sign-extended to 64 bits. The latter is what
  \<^verbatim>\<open>mlir::hlo::matchInts\<close> (library code) puts into its result vector; it fails on any
  other value.
\<close>

datatype ssa_value = SsaValue (value_type: mlir_type) (value_constant: "int64 list option")

definition matchInts :: "ssa_value \<Rightarrow> int64 list option" where
  "matchInts v = value_constant v"

datatype attribute = StringAttr string | BoolAttr bool | OtherAttr

type_synonym location = string

datatype operation =
  Operation (op_loc: location) (op_name: string) (op_operands: "ssa_value list")
    (op_results: "mlir_type list") (op_attrs: "(string \<times> attribute) list")
    (op_regions: "region list")
and region = Region (region_blocks: "block list")
and block = Block (block_args: "mlir_type list") (block_ops: "operation list")

datatype diagnostic = Diagnostic (diag_loc: location) (diag_message: string)

definition emitError :: "operation \<Rightarrow> string \<Rightarrow> diagnostic" where
  "emitError op msg = Diagnostic (op_loc op) msg"

definition emitOpError :: "operation \<Rightarrow> string \<Rightarrow> diagnostic" where
  "emitOpError op msg = Diagnostic (op_loc op) ([CHR 0x27] @ op_name op @ [CHR 0x27] @ '' op '' @ msg)"

definition shapeAssertionName :: string where
  "shapeAssertionName = ''shape_assertion''"

definition errorMessageAttrName :: string where
  "errorMessageAttrName = ''error_message''"

definition maxErrorMessageInputs :: nat where
  "maxErrorMessageInputs = 4"

text \<open>
  The accessors of \<^verbatim>\<open>stablehlo::CustomCallOp\<close> are generated library code. They read the
  attribute dictionary; \<^verbatim>\<open>backend_config\<close> defaults to the empty string and
  \<^verbatim>\<open>has_side_effect\<close> to false. The operation's own verifier makes
  \<^verbatim>\<open>call_target_name\<close> a string attribute that is present; the model reads the empty
  string where it is not.
\<close>

definition isCustomCallOp :: "operation \<Rightarrow> bool" where
  "isCustomCallOp op = (op_name op = ''stablehlo.custom_call'')"

definition getAttr :: "operation \<Rightarrow> string \<Rightarrow> attribute option" where
  "getAttr op name = map_of (op_attrs op) name"

definition hasAttr :: "operation \<Rightarrow> string \<Rightarrow> bool" where
  "hasAttr op name = (getAttr op name \<noteq> None)"

definition getCallTargetName :: "operation \<Rightarrow> string" where
  "getCallTargetName op = (case getAttr op ''call_target_name'' of Some (StringAttr s) \<Rightarrow> s | _ \<Rightarrow> [])"

definition getBackendConfig :: "operation \<Rightarrow> string" where
  "getBackendConfig op = (case getAttr op ''backend_config'' of Some (StringAttr s) \<Rightarrow> s | _ \<Rightarrow> [])"

definition getHasSideEffect :: "operation \<Rightarrow> bool" where
  "getHasSideEffect op = (case getAttr op ''has_side_effect'' of Some (BoolAttr b) \<Rightarrow> b | _ \<Rightarrow> False)"

definition getNumOperands :: "operation \<Rightarrow> nat" where
  "getNumOperands op = length (op_operands op)"

definition getNumResults :: "operation \<Rightarrow> nat" where
  "getNumResults op = length (op_results op)"

text \<open>
  \<^verbatim>\<open>getErrorMessage\<close>: the \<^verbatim>\<open>cast<StringAttr>\<close> aborts on a missing attribute and on one
  that is no string.
\<close>

definition getErrorMessage :: "operation \<Rightarrow> string option" where
  "getErrorMessage op = (case getAttr op errorMessageAttrName of Some (StringAttr s) \<Rightarrow> Some s | _ \<Rightarrow> None)"

subsection \<open>verifyShapeAssertion\<close>

definition supported_attribute :: "string \<Rightarrow> bool" where
  "supported_attribute name =
     (\<not> (name \<noteq> ''api_version'' \<and> name \<noteq> ''backend_config'' \<and> name \<noteq> ''call_target_name''
         \<and> name \<noteq> ''error_message'' \<and> name \<noteq> ''has_side_effect''))"

text \<open>The loop over \<^verbatim>\<open>op->getAttrs()\<close>: the first attribute outside the list, if any.\<close>

fun check_attrs :: "(string \<times> attribute) list \<Rightarrow> logical_result" where
  "check_attrs [] = success"
| "check_attrs ((name, a) # attrs) =
     (if \<not> supported_attribute name then failure (name @ '' is not a supported attribute'')
      else check_attrs attrs)"

text \<open>
  The loop over the error message inputs, \<open>i\<close> counting from 0 and \<open>inputs\<close> being
  \<^verbatim>\<open>op.getInputs()\<close> from index \<open>i + 1\<close> on.
\<close>

fun check_error_message_input_types :: "nat \<Rightarrow> ssa_value list \<Rightarrow> logical_result" where
  "check_error_message_input_types i [] = success"
| "check_error_message_input_types i (v # inputs) =
     (if \<not> is_scalar_signless [32, 64] (value_type v)
      then failure (''expects error_message_input (operand #'' @ string_of_nat (i + 1) @ '') ''
                     @ ''to be a constant of type tensor<i32> or tensor<i64>'')
      else check_error_message_input_types (i + 1) inputs)"

text \<open>
  \<^verbatim>\<open>verifyShapeAssertion\<close>. Past the first check the operation has an operand, so
  \<open>hd\<close> and \<open>tl\<close> read \<^verbatim>\<open>getInputs()[0]\<close> and the inputs from index 1 on.
\<close>

definition verifyShapeAssertion :: "operation \<Rightarrow> logical_result option" where
  "verifyShapeAssertion op =
     (if \<not> (1 \<le> getNumOperands op \<and> getNumOperands op \<le> 1 + maxErrorMessageInputs)
      then Some (failure (''expects 1 <= size(operands) <= '' @ string_of_nat (1 + maxErrorMessageInputs)))
      else let nrErrorMessageInputs = getNumOperands op - 1 in
      if getNumResults op \<noteq> 0 then Some (failure ''expects size(results) = 0'')
      else if check_attrs (op_attrs op) \<noteq> success then Some (check_attrs (op_attrs op))
      else if \<not> (getBackendConfig op = []) then Some (failure ''expects an empty backend_config'')
      else if \<not> (getCallTargetName op = shapeAssertionName) then Some (failure ''expects @shape_assertion'')
      else if \<not> getHasSideEffect op then Some (failure ''expects has_side_effect=true'')
      else if \<not> is_scalar_signless [1] (value_type (hd (op_operands op)))
      then Some (failure (''expects assert_what (operand #0) '' @ ''to be a constant of type tensor<i1>''))
      else if check_error_message_input_types 0 (tl (op_operands op)) \<noteq> success
      then Some (check_error_message_input_types 0 (tl (op_operands op)))
      else if \<not> hasAttr op errorMessageAttrName then Some (failure ''expects an error_message attribute'')
      else case getErrorMessage op of
             None \<Rightarrow> None
           | Some m \<Rightarrow> check_format_specifiers nrErrorMessageInputs (data_cstr m))"

subsection \<open>The walk callback of runOnOperation\<close>

record pass_state =
  emitted :: "diagnostic list"
  pass_failed :: bool

definition initial_pass_state :: pass_state where
  "initial_pass_state = \<lparr>emitted = [], pass_failed = False\<rparr>"

text \<open>A diagnostic emitted on the operation, followed by \<^verbatim>\<open>signalPassFailure()\<close>.\<close>

definition emit_and_fail :: "operation \<Rightarrow> string \<Rightarrow> pass_state \<Rightarrow> pass_state" where
  "emit_and_fail op msg st = st\<lparr>emitted := emitted st @ [emitError op msg], pass_failed := True\<rparr>"

text \<open>
  The loop that fills \<^verbatim>\<open>errorMessageInputs\<close>, \<open>i\<close> counting from 1: the diagnostic of
  the first operand that is not static, or the values. Reading \<^verbatim>\<open>input[0]\<close> of an empty
  vector aborts.
\<close>

fun collect_error_message_inputs :: "nat \<Rightarrow> ssa_value list \<Rightarrow> (string + int64 list) option" where
  "collect_error_message_inputs i [] = Some (Inr [])"
| "collect_error_message_inputs i (v # inputs) =
     (case matchInts v of
        None \<Rightarrow> Some (Inl (''expects static error_message_input (operand #'' @ string_of_nat i @ '')''))
      | Some [] \<Rightarrow> None
      | Some (x # xs) \<Rightarrow>
          (case collect_error_message_inputs (i + 1) inputs of
             None \<Rightarrow> None
           | Some (Inl d) \<Rightarrow> Some (Inl d)
           | Some (Inr errorMessageInputs) \<Rightarrow> Some (Inr (x # errorMessageInputs))))"

text \<open>
  The lambda given to \<^verbatim>\<open>func_op.walk\<close>, called on every \<^verbatim>\<open>CustomCallOp\<close>. The result is
  the operation, or \<open>None\<close> once erased, and the state of the pass. The lambda returns
  \<^verbatim>\<open>void\<close>: each \<^verbatim>\<open>return\<close> ends the visit of this operation only.
\<close>

definition shape_assertion_callback ::
  "bool \<Rightarrow> operation \<Rightarrow> pass_state \<Rightarrow> (operation option \<times> pass_state) option" where
  "shape_assertion_callback enable_shape_assertions op st =
     (if \<not> (getCallTargetName op = shapeAssertionName) then Some (Some op, st)
      else if \<not> enable_shape_assertions then Some (None, st)
      else case verifyShapeAssertion op of
        None \<Rightarrow> None
      | Some (failure d) \<Rightarrow> Some (Some op, emit_and_fail op d st)
      | Some success \<Rightarrow>
          (case matchInts (hd (op_operands op)) of
             None \<Rightarrow> Some (Some op, emit_and_fail op ''expects static assert_what (operand #0)'' st)
           | Some [] \<Rightarrow> None
           | Some (assertWhat0 # rest) \<Rightarrow>
               if assertWhat0 \<noteq> 0 then Some (None, st)
               else (case getErrorMessage op of
                       None \<Rightarrow> None
                     | Some errorMessage \<Rightarrow>
                         (case collect_error_message_inputs 1 (tl (op_operands op)) of
                            None \<Rightarrow> None
                          | Some (Inl d) \<Rightarrow> Some (Some op, emit_and_fail op d st)
                          | Some (Inr errorMessageInputs) \<Rightarrow>
                              Some (Some op,
                                    emit_and_fail op (formatErrorMessage errorMessage errorMessageInputs) st)))))"

text \<open>
  \<^verbatim>\<open>Operation::walk\<close> (library code) visits the operations nested in an operation in
  post-order, the regions, blocks and operations in their order, and calls the callback on
  each operation of the type the callback takes. An operation erased by the callback is
  gone from its block. A callback returning \<^verbatim>\<open>void\<close> cannot interrupt the walk.
\<close>

text \<open>
  The visits of a list, one after the other, each from the state the one before left; an
  abort ends them.
\<close>

fun thread :: "('s \<Rightarrow> ('a \<times> 's) option) list \<Rightarrow> 's \<Rightarrow> ('a list \<times> 's) option" where
  "thread [] st = Some ([], st)"
| "thread (f # fs) st =
     (case f st of
        None \<Rightarrow> None
      | Some (x, st') \<Rightarrow>
          (case thread fs st' of
             None \<Rightarrow> None
           | Some (xs, st'') \<Rightarrow> Some (x # xs, st'')))"

text \<open>The operations of a block that were not erased.\<close>

definition remaining :: "'a option list \<Rightarrow> 'a list" where
  "remaining xs = List.map_filter (\<lambda>x. x) xs"

primrec walk_op :: "bool \<Rightarrow> operation \<Rightarrow> pass_state \<Rightarrow> (operation option \<times> pass_state) option"
  and walk_region :: "bool \<Rightarrow> region \<Rightarrow> pass_state \<Rightarrow> (region \<times> pass_state) option"
  and walk_block :: "bool \<Rightarrow> block \<Rightarrow> pass_state \<Rightarrow> (block \<times> pass_state) option"
where
  "walk_op enable (Operation loc name operands results attrs regions) st =
     (case thread (map (walk_region enable) regions) st of
        None \<Rightarrow> None
      | Some (regions', st') \<Rightarrow>
          if isCustomCallOp (Operation loc name operands results attrs regions')
          then shape_assertion_callback enable (Operation loc name operands results attrs regions') st'
          else Some (Some (Operation loc name operands results attrs regions'), st'))"
| "walk_region enable (Region blocks) st =
     (case thread (map (walk_block enable) blocks) st of
        None \<Rightarrow> None
      | Some (blocks', st') \<Rightarrow> Some (Region blocks', st'))"
| "walk_block enable (Block args ops) st =
     (case thread (map (walk_op enable) ops) st of
        None \<Rightarrow> None
      | Some (ops', st') \<Rightarrow> Some (Block args (remaining ops'), st'))"

text \<open>
  \<^verbatim>\<open>runOnOperation\<close>, from a pass state without diagnostics. The walk starts at the
  \<^verbatim>\<open>FuncOp\<close>, which is no \<^verbatim>\<open>CustomCallOp\<close>.
\<close>

definition runOnOperation :: "bool \<Rightarrow> operation \<Rightarrow> (operation option \<times> pass_state) option" where
  "runOnOperation enable_shape_assertions func_op =
     walk_op enable_shape_assertions func_op initial_pass_state"

text \<open>
  A shape assertion: a custom call whose target is \<^verbatim>\<open>shape_assertion\<close>, the test both the
  callback of the pass and the audit make.
\<close>

definition is_marker :: "operation \<Rightarrow> bool" where
  "is_marker op = (isCustomCallOp op \<and> getCallTargetName op = shapeAssertionName)"

text \<open>The operations the walk visits, in its order: an operation follows the ones nested in it.\<close>

primrec all_ops :: "operation \<Rightarrow> operation list"
  and region_ops :: "region \<Rightarrow> operation list"
  and nested_block_ops :: "block \<Rightarrow> operation list"
where
  "all_ops (Operation loc name operands results attrs regions) =
     concat (map region_ops regions) @ [Operation loc name operands results attrs regions]"
| "region_ops (Region blocks) = concat (map nested_block_ops blocks)"
| "nested_block_ops (Block args ops) = concat (map all_ops ops)"

text \<open>An operation without its shape assertions, \<open>None\<close> when it is one itself.\<close>

primrec without_markers :: "operation \<Rightarrow> operation option"
  and region_without_markers :: "region \<Rightarrow> region"
  and block_without_markers :: "block \<Rightarrow> block"
where
  "without_markers (Operation loc name operands results attrs regions) =
     (if is_marker (Operation loc name operands results attrs (map region_without_markers regions))
      then None
      else Some (Operation loc name operands results attrs (map region_without_markers regions)))"
| "region_without_markers (Region blocks) = Region (map block_without_markers blocks)"
| "block_without_markers (Block args ops) = Block args (remaining (map without_markers ops))"

subsection \<open>The rules of the well-formedness check, one by one\<close>

text \<open>
  The ten rules of section 4.2 of the specification, each as a check of its own with the
  diagnostic the code gives, and the check that takes them in order and stops at the first
  that does not succeed.
\<close>

type_synonym rule = "operation \<Rightarrow> logical_result option"

definition rule_operand_count :: rule where
  "rule_operand_count op =
     Some (if 1 \<le> length (op_operands op) \<and> length (op_operands op) \<le> 5 then success
           else failure ''expects 1 <= size(operands) <= 5'')"

definition rule_result_count :: rule where
  "rule_result_count op =
     Some (if length (op_results op) = 0 then success else failure ''expects size(results) = 0'')"

definition rule_attribute_names :: rule where
  "rule_attribute_names op =
     Some (case find (\<lambda>(name, a). name \<notin> set [''api_version'', ''backend_config'',
                        ''call_target_name'', ''error_message'', ''has_side_effect'']) (op_attrs op) of
             None \<Rightarrow> success
           | Some (name, a) \<Rightarrow> failure (name @ '' is not a supported attribute''))"

definition rule_backend_config :: rule where
  "rule_backend_config op =
     Some (if getBackendConfig op = [] then success else failure ''expects an empty backend_config'')"

definition rule_call_target_name :: rule where
  "rule_call_target_name op =
     Some (if getCallTargetName op = ''shape_assertion'' then success
           else failure ''expects @shape_assertion'')"

definition rule_has_side_effect :: rule where
  "rule_has_side_effect op =
     Some (if getHasSideEffect op then success else failure ''expects has_side_effect=true'')"

definition rule_assert_what_type :: rule where
  "rule_assert_what_type op =
     Some (case op_operands op of
             v # vs \<Rightarrow>
               if is_scalar_signless [1] (value_type v) then success
               else failure ''expects assert_what (operand #0) to be a constant of type tensor<i1>''
           | [] \<Rightarrow> failure ''expects assert_what (operand #0) to be a constant of type tensor<i1>'')"

definition rule_error_message_input_types :: rule where
  "rule_error_message_input_types op =
     Some (case find (\<lambda>i. \<not> is_scalar_signless [32, 64] (value_type (op_operands op ! i)))
                  [1 ..< length (op_operands op)] of
             None \<Rightarrow> success
           | Some i \<Rightarrow> failure (''expects error_message_input (operand #'' @ string_of_nat i
                                  @ '') to be a constant of type tensor<i32> or tensor<i64>''))"

definition rule_error_message_present :: rule where
  "rule_error_message_present op =
     Some (if map_of (op_attrs op) ''error_message'' \<noteq> None then success
           else failure ''expects an error_message attribute'')"

definition rule_placeholders :: rule where
  "rule_placeholders op =
     (case getErrorMessage op of
        None \<Rightarrow> None
      | Some m \<Rightarrow> check_format_specifiers (length (op_operands op) - 1) (data_cstr m))"

fun first_violation :: "rule list \<Rightarrow> operation \<Rightarrow> logical_result option" where
  "first_violation [] op = Some success"
| "first_violation (r # rs) op =
     (case r op of Some success \<Rightarrow> first_violation rs op | other \<Rightarrow> other)"

definition rules_before_placeholders :: "rule list" where
  "rules_before_placeholders =
     [rule_operand_count, rule_result_count, rule_attribute_names, rule_backend_config,
      rule_call_target_name, rule_has_side_effect, rule_assert_what_type,
      rule_error_message_input_types, rule_error_message_present]"

subsection \<open>ValidateStaticShapes\<close>

record audit_state =
  audit_diagnostics :: "diagnostic list"
  moduleHasDynamicShapes :: bool
  moduleHasShapeAssertions :: bool

definition initial_audit_state :: audit_state where
  "initial_audit_state =
     \<lparr>audit_diagnostics = [], moduleHasDynamicShapes = False, moduleHasShapeAssertions = False\<rparr>"

text \<open>\<^verbatim>\<open>Region::getArguments()\<close>: the arguments of the entry block, none in an empty region.\<close>

fun getArguments :: "region \<Rightarrow> mlir_type list" where
  "getArguments (Region []) = []"
| "getArguments (Region (entry # blocks)) = block_args entry"

definition opHasDynamicShapes :: "operation \<Rightarrow> bool" where
  "opHasDynamicShapes op =
     (list_ex hasDynamicShape (op_results op)
      \<or> list_ex (\<lambda>region. list_ex hasDynamicShape (getArguments region)) (op_regions op))"

text \<open>The lambda given to \<^verbatim>\<open>module->walk\<close>, called on every operation.\<close>

definition audit_callback :: "operation \<Rightarrow> audit_state \<Rightarrow> audit_state" where
  "audit_callback op st =
     (let st1 = (if opHasDynamicShapes op
                 then st\<lparr>audit_diagnostics := audit_diagnostics st @ [emitOpError op ''has dynamic shapes''],
                        moduleHasDynamicShapes := True\<rparr>
                 else st)
      in if isCustomCallOp op \<and> getCallTargetName op = shapeAssertionName
         then st1\<lparr>audit_diagnostics := audit_diagnostics st1 @ [emitOpError op ''has residual shape assertions''],
                  moduleHasShapeAssertions := True\<rparr>
         else st1)"

primrec audit_walk_op :: "operation \<Rightarrow> audit_state \<Rightarrow> audit_state"
  and audit_walk_region :: "region \<Rightarrow> audit_state \<Rightarrow> audit_state"
  and audit_walk_block :: "block \<Rightarrow> audit_state \<Rightarrow> audit_state"
where
  "audit_walk_op (Operation loc name operands results attrs regions) st =
     audit_callback (Operation loc name operands results attrs regions)
       (fold (\<lambda>visit s. visit s) (map audit_walk_region regions) st)"
| "audit_walk_region (Region blocks) st = fold (\<lambda>visit s. visit s) (map audit_walk_block blocks) st"
| "audit_walk_block (Block args ops) st = fold (\<lambda>visit s. visit s) (map audit_walk_op ops) st"

datatype status = OkStatus | InvalidArgumentError string | InternalError string

text \<open>One diagnostic as a line of text: where it is, and what it says.\<close>

definition diagnostic_line :: "diagnostic \<Rightarrow> string" where
  "diagnostic_line d = diag_loc d @ '': error: '' @ diag_message d @ [CHR 0x0A]"

text \<open>
  Modelled from the spec: \<^verbatim>\<open>BaseScopedDiagnosticHandler\<close> of \<^verbatim>\<open>error_util.h\<close> is not
  among the sources. By sections 4.5 and 5 of the specification it accumulates the
  diagnostics of one call, and the text drained into the failure
  (\<^verbatim>\<open>ConsumeStatus().ToString()\<close>) is their concatenation.
\<close>

definition ConsumeStatus_text :: "diagnostic list \<Rightarrow> string" where
  "ConsumeStatus_text ds = concat (map diagnostic_line ds)"

definition ValidateStaticShapes :: "operation \<Rightarrow> status" where
  "ValidateStaticShapes module =
     (let st = audit_walk_op module initial_audit_state in
      if moduleHasDynamicShapes st
      then InvalidArgumentError (''Module has dynamic shapes: '' @ ConsumeStatus_text (audit_diagnostics st))
      else if moduleHasShapeAssertions st
      then InvalidArgumentError (''Module has residual shape assertions: ''
                                  @ ConsumeStatus_text (audit_diagnostics st))
      else OkStatus)"

text \<open>
  What the walk of \<^verbatim>\<open>ValidateStaticShapes\<close> amounts to, stated without the walk: the
  diagnostics one operation calls for, and the state after a list of operations has been
  visited.
\<close>

definition audit_diagnostics_of :: "operation \<Rightarrow> diagnostic list" where
  "audit_diagnostics_of op =
     (if opHasDynamicShapes op then [emitOpError op ''has dynamic shapes''] else [])
     @ (if is_marker op then [emitOpError op ''has residual shape assertions''] else [])"

definition audit_after :: "audit_state \<Rightarrow> operation list \<Rightarrow> audit_state" where
  "audit_after st ops =
     st\<lparr>audit_diagnostics := audit_diagnostics st @ concat (map audit_diagnostics_of ops),
        moduleHasDynamicShapes := (moduleHasDynamicShapes st \<or> list_ex opHasDynamicShapes ops),
        moduleHasShapeAssertions := (moduleHasShapeAssertions st \<or> list_ex is_marker ops)\<rparr>"

subsection \<open>RefinePolymorphicShapes\<close>

text \<open>
  A pass takes the module and leaves it changed, with the diagnostics it emitted and
  whether it succeeded; \<open>None\<close> is an abort. The module verifier, the four library passes
  and the adaptor that runs a function pass on the functions of a module are MLIR and
  StableHLO code: they are parameters.
\<close>

type_synonym pass = "operation \<Rightarrow> (bool \<times> operation \<times> diagnostic list) option"

record external_passes =
  mlir_verify :: "operation \<Rightarrow> bool \<times> diagnostic list"
  InlinerPass :: pass
  CSEPass :: pass
  StablehloRefineShapesPass :: pass
  StablehloCanonicalizeDynamismPass :: pass
  nested_pass :: "pass \<Rightarrow> pass"

text \<open>
  \<^verbatim>\<open>CheckShapeAssertionsPass\<close> on one function, as a pass. The walk never erases the
  \<^verbatim>\<open>FuncOp\<close> it starts from; the branch for it is there for totality.
\<close>

definition CheckShapeAssertionsPass :: "bool \<Rightarrow> pass" where
  "CheckShapeAssertionsPass enable_shape_assertions func_op =
     (case runOnOperation enable_shape_assertions func_op of
        None \<Rightarrow> None
      | Some (None, st) \<Rightarrow> None
      | Some (Some func_op', st) \<Rightarrow> Some (\<not> pass_failed st, func_op', emitted st))"

text \<open>
  Modelled from the spec: \<^verbatim>\<open>mlir::PassManager::run\<close> is library code. By section 4.4 of the
  specification the steps run in order, and a step that fails stops the run: no later step
  is attempted. The diagnostics accumulate in the handler.
\<close>

fun pm_run :: "pass list \<Rightarrow> operation \<Rightarrow> diagnostic list \<Rightarrow> (bool \<times> operation \<times> diagnostic list) option" where
  "pm_run [] module ds = Some (True, module, ds)"
| "pm_run (p # ps) module ds =
     (case p module of
        None \<Rightarrow> None
      | Some (ok, module', ds') \<Rightarrow>
          if ok then pm_run ps module' (ds @ ds') else Some (False, module', ds @ ds'))"

definition pipeline :: "external_passes \<Rightarrow> bool \<Rightarrow> pass list" where
  "pipeline ext enable_shape_assertions =
     [InlinerPass ext, CSEPass ext, StablehloRefineShapesPass ext,
      nested_pass ext (StablehloCanonicalizeDynamismPass ext),
      nested_pass ext (CheckShapeAssertionsPass enable_shape_assertions)]"

text \<open>
  \<^verbatim>\<open>RefinePolymorphicShapes(module, enable_shape_assertions)\<close>: the status returned and the
  module as the call leaves it.
\<close>

definition RefinePolymorphicShapes ::
  "external_passes \<Rightarrow> operation \<Rightarrow> bool \<Rightarrow> (status \<times> operation) option" where
  "RefinePolymorphicShapes ext module enable_shape_assertions =
     (case mlir_verify ext module of
        (verified, vds) \<Rightarrow>
          if \<not> verified
          then Some (InvalidArgumentError (''Module verification failed: '' @ ConsumeStatus_text vds), module)
          else (case pm_run (pipeline ext enable_shape_assertions) module vds of
                  None \<Rightarrow> None
                | Some (ok, module', ds) \<Rightarrow>
                    if \<not> ok
                    then Some (InvalidArgumentError (''Module shape refinement failed: ''
                                                      @ ConsumeStatus_text ds), module')
                    else Some (ValidateStaticShapes module', module')))"

subsection \<open>Example operations\<close>

definition tensor_i1 :: mlir_type where
  "tensor_i1 = ShapedType (Some []) (IntegerType Signless 1)"

definition tensor_i32 :: mlir_type where
  "tensor_i32 = ShapedType (Some []) (IntegerType Signless 32)"

definition tensor_dyn_i32 :: mlir_type where
  "tensor_dyn_i32 = ShapedType (Some [DynamicDim]) (IntegerType Signless 32)"

definition example_assertion ::
  "location \<Rightarrow> int64 list option \<Rightarrow> int64 list \<Rightarrow> string \<Rightarrow> operation" where
  "example_assertion loc assert_what inputs message =
     Operation loc ''stablehlo.custom_call''
       (SsaValue tensor_i1 assert_what # map (\<lambda>x. SsaValue tensor_i32 (Some [x])) inputs) []
       [(''call_target_name'', StringAttr ''shape_assertion''),
        (''error_message'', StringAttr message),
        (''has_side_effect'', BoolAttr True)] []"

definition six_operands :: operation where
  "six_operands = example_assertion ''a.mlir:1'' (Some [- 1]) [1, 2, 3, 4, 5] ''no more than {0}''"

definition holds :: operation where
  "holds = example_assertion ''a.mlir:2'' (Some [- 1]) [3] ''never shown {0}''"

definition violated :: operation where
  "violated = example_assertion ''a.mlir:3'' (Some [0]) [3, 7] ''bad value {0}, expected {1}''"

definition bad_index :: operation where
  "bad_index = example_assertion ''a.mlir:4'' (Some [0]) [3] ''bad value {0}, expected {1}''"

definition example_add :: operation where
  "example_add = Operation ''a.mlir:5'' ''stablehlo.add'' [] [tensor_dyn_i32] [] []"

definition example_func :: "operation list \<Rightarrow> operation" where
  "example_func body = Operation ''a.mlir:0'' ''func.func'' [] [] [] [Region [Block [] body]]"

definition example_module :: "operation list \<Rightarrow> operation" where
  "example_module funcs = Operation ''a.mlir'' ''builtin.module'' [] [] [] [Region [Block [] funcs]]"

text \<open>
  Stand-ins for the library passes, to run the orchestrator on an example: a verifier and a
  CSE pass that succeed or fail as told, passes that do nothing, and an adaptor that runs a
  function pass on the operations of the module's block, one after the other.
\<close>

fun run_on_functions :: "pass \<Rightarrow> operation list \<Rightarrow> (bool \<times> operation list \<times> diagnostic list) option" where
  "run_on_functions p [] = Some (True, [], [])"
| "run_on_functions p (f # fs) =
     (case p f of
        None \<Rightarrow> None
      | Some (ok, f', ds) \<Rightarrow>
          if \<not> ok then Some (False, f' # fs, ds)
          else (case run_on_functions p fs of
                  None \<Rightarrow> None
                | Some (ok', fs', ds') \<Rightarrow> Some (ok', f' # fs', ds @ ds')))"

fun example_nested_pass :: "pass \<Rightarrow> pass" where
  "example_nested_pass p (Operation loc name operands results attrs [Region [Block args funcs]]) =
     (case run_on_functions p funcs of
        None \<Rightarrow> None
      | Some (ok, funcs', ds) \<Rightarrow>
          Some (ok, Operation loc name operands results attrs [Region [Block args funcs']], ds))"
| "example_nested_pass p module = Some (True, module, [])"

definition example_passes :: "bool \<Rightarrow> bool \<Rightarrow> external_passes" where
  "example_passes verified cse_ok =
     \<lparr>mlir_verify = (\<lambda>m. (verified, if verified then [] else [Diagnostic (op_loc m) ''invalid''])),
      InlinerPass = (\<lambda>m. Some (True, m, [])),
      CSEPass = (\<lambda>m. Some (cse_ok, m, if cse_ok then [] else [Diagnostic (op_loc m) ''cse failed''])),
      StablehloRefineShapesPass = (\<lambda>m. Some (True, m, [])),
      StablehloCanonicalizeDynamismPass = (\<lambda>m. Some (True, m, [])),
      nested_pass = example_nested_pass\<rparr>"

section \<open>Properties\<close>

subsection \<open>The formatter\<close>


lemma formatErrorMessage_cases:
  "formatErrorMessage t vals =
     (if 1 \<le> length vals \<and> length vals \<le> 4 then formatv (data_cstr t) vals else data_cstr t)"
  unfolding formatErrorMessage_def Let_def
  by (auto split: list.splits)














subsection \<open>The well-formedness check\<close>

lemma string_of_nat_5: "string_of_nat (1 + maxErrorMessageInputs) = ''5''"
  by code_simp

lemma check_attrs_find:
  "check_attrs attrs =
     (case find (\<lambda>(name, a). name \<notin> set [''api_version'', ''backend_config'',
                        ''call_target_name'', ''error_message'', ''has_side_effect'']) attrs of
        None \<Rightarrow> success
      | Some (name, a) \<Rightarrow> failure (name @ '' is not a supported attribute''))"
  by (induction attrs rule: check_attrs.induct) (simp_all add: supported_attribute_def)

lemma check_input_types_find:
  "length pre = Suc i \<Longrightarrow>
   check_error_message_input_types i vs =
     (case find (\<lambda>j. \<not> is_scalar_signless [32, 64] (value_type ((pre @ vs) ! j)))
                  [Suc i ..< length (pre @ vs)] of
             None \<Rightarrow> success
           | Some j \<Rightarrow> failure (''expects error_message_input (operand #'' @ string_of_nat j
                                  @ '') to be a constant of type tensor<i32> or tensor<i64>''))"
proof (induction vs arbitrary: i pre)
  case Nil
  then show ?case by simp
next
  case (Cons v vs)
  have len: "length (pre @ [v]) = Suc (Suc i)" using Cons.prems by simp
  have lt: "Suc i < length (pre @ v # vs)" using Cons.prems by simp
  have upt: "[Suc i ..< length (pre @ v # vs)] = Suc i # [Suc (Suc i) ..< length ((pre @ [v]) @ vs)]"
    using upt_conv_Cons [OF lt] by simp
  have nth: "(pre @ v # vs) ! Suc i = v" using Cons.prems by (simp add: nth_append)
  have app: "pre @ v # vs = (pre @ [v]) @ vs" by simp
  show ?case
    using Cons.IH [OF len] 
    apply (simp only: check_error_message_input_types.simps upt find.simps nth)
    apply (simp only: app)
    apply simp
    done
qed

lemma check_input_types_rule:
  "op_operands op \<noteq> [] \<Longrightarrow>
   Some (check_error_message_input_types 0 (tl (op_operands op))) = rule_error_message_input_types op"
proof -
  assume ne: "op_operands op \<noteq> []"
  then obtain v vs where ops: "op_operands op = v # vs" by (cases "op_operands op") auto
  have "length [v] = Suc 0" by simp
  from check_input_types_find [OF this, of vs] show ?thesis
    by (simp add: rule_error_message_input_types_def ops)
qed

lemma rule_operand_count_code:
  "rule_operand_count op =
     (if \<not> (1 \<le> getNumOperands op \<and> getNumOperands op \<le> 1 + maxErrorMessageInputs)
      then Some (failure (''expects 1 <= size(operands) <= '' @ string_of_nat (1 + maxErrorMessageInputs)))
      else Some success)"
  unfolding string_of_nat_5
  by (simp add: rule_operand_count_def getNumOperands_def maxErrorMessageInputs_def)

lemma rule_assert_what_type_code:
  "op_operands op \<noteq> [] \<Longrightarrow>
   rule_assert_what_type op =
     (if \<not> is_scalar_signless [1] (value_type (hd (op_operands op)))
      then Some (failure (''expects assert_what (operand #0) '' @ ''to be a constant of type tensor<i1>''))
      else Some success)"
  by (cases "op_operands op") (simp_all add: rule_assert_what_type_def)

lemma rule_simple_code:
  "rule_result_count op = (if getNumResults op \<noteq> 0 then Some (failure ''expects size(results) = 0'') else Some success)"
  "rule_attribute_names op = Some (check_attrs (op_attrs op))"
  "rule_backend_config op = (if \<not> (getBackendConfig op = []) then Some (failure ''expects an empty backend_config'') else Some success)"
  "rule_call_target_name op = (if \<not> (getCallTargetName op = shapeAssertionName) then Some (failure ''expects @shape_assertion'') else Some success)"
  "rule_has_side_effect op = (if \<not> getHasSideEffect op then Some (failure ''expects has_side_effect=true'') else Some success)"
  "rule_error_message_present op = (if \<not> hasAttr op errorMessageAttrName then Some (failure ''expects an error_message attribute'') else Some success)"
  "rule_placeholders op = (case getErrorMessage op of None \<Rightarrow> None
      | Some m \<Rightarrow> check_format_specifiers (getNumOperands op - 1) (data_cstr m))"
  by (simp_all add: rule_result_count_def getNumResults_def rule_attribute_names_def check_attrs_find
      rule_backend_config_def rule_call_target_name_def shapeAssertionName_def rule_has_side_effect_def
      rule_error_message_present_def hasAttr_def getAttr_def errorMessageAttrName_def
      rule_placeholders_def getNumOperands_def split: option.splits)

lemma verifyShapeAssertion_rules:
  "verifyShapeAssertion op = first_violation (rules_before_placeholders @ [rule_placeholders]) op"
proof (cases "1 \<le> getNumOperands op \<and> getNumOperands op \<le> 1 + maxErrorMessageInputs")
  case False
  then show ?thesis
    by (simp add: verifyShapeAssertion_def rules_before_placeholders_def rule_operand_count_code
        del: One_nat_def add_Suc)
next
  case True
  then have ne: "op_operands op \<noteq> []" by (auto simp: getNumOperands_def)
  note r7 = rule_assert_what_type_code [OF ne]
  note r8 = check_input_types_rule [OF ne, symmetric]
  show ?thesis
  proof (cases "check_attrs (op_attrs op)")
    case success
    show ?thesis
    proof (cases "check_error_message_input_types 0 (tl (op_operands op))")
      case s2: success
      show ?thesis
        unfolding verifyShapeAssertion_def rules_before_placeholders_def
        using True success s2
        by (simp add: Let_def rule_operand_count_code rule_simple_code r7 r8 del: One_nat_def add_Suc
            split: option.splits logical_result.splits)
    next
      case f2: (failure d)
      show ?thesis
        unfolding verifyShapeAssertion_def rules_before_placeholders_def
        using True success f2
        by (simp add: Let_def rule_operand_count_code rule_simple_code r7 r8 del: One_nat_def add_Suc)
    qed
  next
    case (failure d)
    show ?thesis
      unfolding verifyShapeAssertion_def rules_before_placeholders_def
      using True failure
      by (simp add: Let_def rule_operand_count_code rule_simple_code del: One_nat_def add_Suc)
  qed
qed

lemma first_violation_append:
  "first_violation (rs @ rs') op =
     (case first_violation rs op of Some success \<Rightarrow> first_violation rs' op | other \<Rightarrow> other)"
  by (induction rs) (auto split: option.splits logical_result.splits)

lemma verifyShapeAssertion_placeholders:
  "first_violation rules_before_placeholders op = Some success \<Longrightarrow>
   verifyShapeAssertion op = rule_placeholders op"
  by (simp add: verifyShapeAssertion_rules first_violation_append
      split: option.splits logical_result.splits)

lemma six_operands_rejected:
  "length (op_operands op) = 6 \<Longrightarrow>
   verifyShapeAssertion op = Some (failure ''expects 1 <= size(operands) <= 5'')"
  by (simp add: verifyShapeAssertion_rules rules_before_placeholders_def rule_operand_count_def)

lemma callback_verify_failure:
  "is_marker op \<Longrightarrow> verifyShapeAssertion op = Some (failure d) \<Longrightarrow>
   shape_assertion_callback True op st = Some (Some op, emit_and_fail op d st)"
  by (simp add: shape_assertion_callback_def is_marker_def)

text \<open>
  C4. The check gives what taking the ten rules in the order of the specification and
  stopping at the first that does not succeed gives: operand count, result count,
  attribute names, backend config, call target name, side effect, type of operand 0, types
  of the further operands, presence of the error message, placeholders. A shape assertion
  with six operands fails with the diagnostic of the first rule, and the callback of the
  pass emits it and keeps the operation, whatever its operands are defined by.
\<close>

theorem verifyShapeAssertion_rule_order:
  "verifyShapeAssertion op =
     first_violation [rule_operand_count, rule_result_count, rule_attribute_names,
       rule_backend_config, rule_call_target_name, rule_has_side_effect, rule_assert_what_type,
       rule_error_message_input_types, rule_error_message_present, rule_placeholders] op
   \<and> (is_marker op \<longrightarrow> length (op_operands op) = 6 \<longrightarrow>
        verifyShapeAssertion op = Some (failure ''expects 1 <= size(operands) <= 5'')
        \<and> shape_assertion_callback True op st
            = Some (Some op, emit_and_fail op ''expects 1 <= size(operands) <= 5'' st))"
proof -
  have a: "verifyShapeAssertion op =
     first_violation [rule_operand_count, rule_result_count, rule_attribute_names,
       rule_backend_config, rule_call_target_name, rule_has_side_effect, rule_assert_what_type,
       rule_error_message_input_types, rule_error_message_present, rule_placeholders] op"
    using verifyShapeAssertion_rules [of op] by (simp only: rules_before_placeholders_def append.simps)
  have b: "is_marker op \<longrightarrow> length (op_operands op) = 6 \<longrightarrow>
        verifyShapeAssertion op = Some (failure ''expects 1 <= size(operands) <= 5'')
        \<and> shape_assertion_callback True op st
            = Some (Some op, emit_and_fail op ''expects 1 <= size(operands) <= 5'' st)"
    using six_operands_rejected callback_verify_failure by blast
  from a b show ?thesis by (rule conjI)
qed

lemma is_marker_example: "is_marker (example_assertion loc w inputs m)"
  by (simp add: is_marker_def example_assertion_def isCustomCallOp_def getCallTargetName_def
      getAttr_def shapeAssertionName_def)

theorem verifyShapeAssertion_rule_order_witness:
  "is_marker six_operands \<and> length (op_operands six_operands) = 6
   \<and> verifyShapeAssertion six_operands = Some (failure ''expects 1 <= size(operands) <= 5'')
   \<and> shape_assertion_callback True six_operands initial_pass_state
       = Some (Some six_operands,
               \<lparr>emitted = [Diagnostic ''a.mlir:1'' ''expects 1 <= size(operands) <= 5''],
                pass_failed = True\<rparr>)"
proof -
  have m: "is_marker six_operands" by (simp add: six_operands_def is_marker_example)
  have l: "length (op_operands six_operands) = 6" by (simp add: six_operands_def example_assertion_def)
  have e: "emit_and_fail six_operands ''expects 1 <= size(operands) <= 5'' initial_pass_state
       = \<lparr>emitted = [Diagnostic ''a.mlir:1'' ''expects 1 <= size(operands) <= 5''], pass_failed = True\<rparr>"
    by (simp add: emit_and_fail_def initial_pass_state_def emitError_def six_operands_def example_assertion_def)
  from verifyShapeAssertion_rule_order [of six_operands initial_pass_state] m l
  have "verifyShapeAssertion six_operands = Some (failure ''expects 1 <= size(operands) <= 5'')
      \<and> shape_assertion_callback True six_operands initial_pass_state
          = Some (Some six_operands,
                  emit_and_fail six_operands ''expects 1 <= size(operands) <= 5'' initial_pass_state)"
    by blast
  with m l show ?thesis by (simp only: e)
qed

subsection \<open>Placeholders out of range\<close>

lemma check_format_specifiers_bad:
  assumes "regex_match s = Some (pre, ds, e, rest)" "stoi ds = Some k" "int n \<le> k"
  shows "check_format_specifiers n s = Some (failure (bad_specifier_message n (whole_match ds e)))"
  using assms by (subst check_format_specifiers.simps) simp

lemma check_format_specifiers_good:
  assumes "regex_match s = Some (pre, ds, e, rest)" "stoi ds = Some k" "0 \<le> k" "k < int n"
  shows "check_format_specifiers n s = check_format_specifiers n (regex_sub_empty s)"
  using assms by (subst check_format_specifiers.simps) simp

lemma check_format_specifiers_scan:
  assumes "\<forall>i<j. \<exists>pre ds e rest k.
             regex_match ((regex_sub_empty ^^ i) s) = Some (pre, ds, e, rest) \<and> stoi ds = Some k \<and> 0 \<le> k \<and> k < int n"
    and "regex_match ((regex_sub_empty ^^ j) s) = Some (pre, ds, e, rest)" "stoi ds = Some k" "int n \<le> k"
  shows "check_format_specifiers n s = Some (failure (bad_specifier_message n (whole_match ds e)))"
  using assms
proof (induction j arbitrary: s)
  case 0
  then show ?case by (simp add: check_format_specifiers_bad)
next
  case (Suc j)
  from Suc.prems(1) obtain pre0 ds0 e0 rest0 k0 where
    m0: "regex_match s = Some (pre0, ds0, e0, rest0)" "stoi ds0 = Some k0" "0 \<le> k0" "k0 < int n"
    by fastforce
  have step: "check_format_specifiers n s = check_format_specifiers n (regex_sub_empty s)"
    using m0 by (rule check_format_specifiers_good)
  have earlier: "\<forall>i<j. \<exists>pre ds e rest k.
      regex_match ((regex_sub_empty ^^ i) (regex_sub_empty s)) = Some (pre, ds, e, rest)
      \<and> stoi ds = Some k \<and> 0 \<le> k \<and> k < int n"
  proof (intro allI impI)
    fix i assume "i < j"
    then have "Suc i < Suc j" by simp
    with Suc.prems(1) show "\<exists>pre ds e rest k.
      regex_match ((regex_sub_empty ^^ i) (regex_sub_empty s)) = Some (pre, ds, e, rest)
      \<and> stoi ds = Some k \<and> 0 \<le> k \<and> k < int n"
      by (metis funpow_Suc_right o_apply)
  qed
  have here: "regex_match ((regex_sub_empty ^^ j) (regex_sub_empty s)) = Some (pre, ds, e, rest)"
    using Suc.prems(2) by (simp add: funpow_swap1)
  from Suc.IH [OF earlier here Suc.prems(3) Suc.prems(4)] step show ?case by simp
qed

text \<open>
  C6. The validation scans a working copy of the template, removing each placeholder it
  accepts. When, after \<open>j\<close> accepted placeholders, the next one scanned parses to an index
  \<open>k\<close> with \<open>n \<le> k\<close>, \<open>n\<close> being the number of error message inputs, the validation
  fails, and its diagnostic names the bound \<open>n\<close> and the placeholder as matched. For a shape
  assertion that passes the nine earlier rules, \<^verbatim>\<open>verifyShapeAssertion\<close> fails with that
  diagnostic and the callback emits it, marks the pass failed and keeps the operation: the
  message is not formatted.
\<close>

theorem out_of_range_placeholder_rejected:
  assumes "\<forall>i<j. \<exists>pre ds e rest k.
             regex_match ((regex_sub_empty ^^ i) s) = Some (pre, ds, e, rest) \<and> stoi ds = Some k \<and> 0 \<le> k \<and> k < int n"
    and "regex_match ((regex_sub_empty ^^ j) s) = Some (pre, ds, e, rest)"
    and "stoi ds = Some k" and "int n \<le> k"
  shows "check_format_specifiers n s
           = Some (failure (''expects error_message to contain format specifiers with ''
                @ ''error_message_input index less than '' @ string_of_nat n
                @ ''. Found specifier '' @ [CHR ''{''] @ ds @ [e]))
         \<and> (is_marker op \<and> first_violation rules_before_placeholders op = Some success
            \<and> getErrorMessage op = Some m \<and> data_cstr m = s \<and> length (op_operands op) - 1 = n
            \<longrightarrow> verifyShapeAssertion op = check_format_specifiers n s
              \<and> shape_assertion_callback True op st
                  = Some (Some op, emit_and_fail op
                      (''expects error_message to contain format specifiers with ''
                        @ ''error_message_input index less than '' @ string_of_nat n
                        @ ''. Found specifier '' @ [CHR ''{''] @ ds @ [e]) st))"
proof -
  have msg: "bad_specifier_message n (whole_match ds e)
      = ''expects error_message to contain format specifiers with ''
                @ ''error_message_input index less than '' @ string_of_nat n
                @ ''. Found specifier '' @ [CHR ''{''] @ ds @ [e]"
    by (simp add: bad_specifier_message_def whole_match_def)
  have a: "check_format_specifiers n s = Some (failure (bad_specifier_message n (whole_match ds e)))"
    using assms by (rule check_format_specifiers_scan)
  have b: "verifyShapeAssertion op = check_format_specifiers n s
        \<and> shape_assertion_callback True op st
            = Some (Some op, emit_and_fail op (bad_specifier_message n (whole_match ds e)) st)"
    if h: "is_marker op \<and> first_violation rules_before_placeholders op = Some success
            \<and> getErrorMessage op = Some m \<and> data_cstr m = s \<and> length (op_operands op) - 1 = n"
  proof -
    from h have "verifyShapeAssertion op = rule_placeholders op"
      by (simp add: verifyShapeAssertion_placeholders)
    with h have v: "verifyShapeAssertion op = check_format_specifiers n s"
      by (simp add: rule_placeholders_def)
    with a h callback_verify_failure [of op "bad_specifier_message n (whole_match ds e)" st]
    show ?thesis by simp
  qed
  from a b show ?thesis unfolding msg by blast
qed

lemma bad_index_rules: "first_violation rules_before_placeholders bad_index = Some success"
  by code_simp

theorem out_of_range_placeholder_rejected_witness:
  "regex_match ''bad value {0}, expected {1}''
       = Some (''bad value '', ''0'', CHR ''}'', '', expected {1}'')
   \<and> stoi ''0'' = Some 0 \<and> (0::int) < int 1
   \<and> regex_match ((regex_sub_empty ^^ 1) ''bad value {0}, expected {1}'')
       = Some (''bad value , expected '', ''1'', CHR ''}'', [])
   \<and> stoi ''1'' = Some 1 \<and> int 1 \<le> 1
   \<and> is_marker bad_index \<and> first_violation rules_before_placeholders bad_index = Some success
   \<and> getErrorMessage bad_index = Some ''bad value {0}, expected {1}''
   \<and> data_cstr ''bad value {0}, expected {1}'' = ''bad value {0}, expected {1}''
   \<and> length (op_operands bad_index) - 1 = 1
   \<and> check_format_specifiers 1 ''bad value {0}, expected {1}''
       = Some (failure (''expects error_message to contain format specifiers with ''
                @ ''error_message_input index less than '' @ string_of_nat 1
                @ ''. Found specifier '' @ [CHR ''{''] @ ''1'' @ [CHR ''}'']))
   \<and> shape_assertion_callback True bad_index initial_pass_state
       = Some (Some bad_index, emit_and_fail bad_index
                      (''expects error_message to contain format specifiers with ''
                        @ ''error_message_input index less than '' @ string_of_nat 1
                        @ ''. Found specifier '' @ [CHR ''{''] @ ''1'' @ [CHR ''}'']) initial_pass_state)"
proof -
  have m0: "regex_match ''bad value {0}, expected {1}''
      = Some (''bad value '', ''0'', CHR ''}'', '', expected {1}'')"
    by code_simp
  have s0: "stoi ''0'' = Some 0" by (simp add: stoi_def digits_value_def digit_value_def)
  have h1: "\<forall>i<1. \<exists>pre ds e rest k.
       regex_match ((regex_sub_empty ^^ i) ''bad value {0}, expected {1}'') = Some (pre, ds, e, rest)
       \<and> stoi ds = Some k \<and> 0 \<le> k \<and> k < int 1"
    using m0 s0 by simp
  have h2: "regex_match ((regex_sub_empty ^^ 1) ''bad value {0}, expected {1}'')
       = Some (''bad value , expected '', ''1'', CHR ''}'', [])"
    by code_simp
  have h3: "stoi ''1'' = Some 1" by (simp add: stoi_def digits_value_def digit_value_def)
  have h4: "int 1 \<le> 1" by simp
  have g1: "is_marker bad_index" by (simp add: bad_index_def is_marker_example)
  have g3: "getErrorMessage bad_index = Some ''bad value {0}, expected {1}''" by code_simp
  have g4: "data_cstr ''bad value {0}, expected {1}'' = ''bad value {0}, expected {1}''" by code_simp
  have g5: "length (op_operands bad_index) - 1 = 1" by (simp add: bad_index_def example_assertion_def)
  note t = out_of_range_placeholder_rejected [OF h1 h2 h3 h4,
      of bad_index "''bad value {0}, expected {1}''" initial_pass_state]
  from t have a: "check_format_specifiers 1 ''bad value {0}, expected {1}''
       = Some (failure (''expects error_message to contain format specifiers with ''
                @ ''error_message_input index less than '' @ string_of_nat 1
                @ ''. Found specifier '' @ [CHR ''{''] @ ''1'' @ [CHR ''}'']))"
    by (rule conjunct1)
  from t have "is_marker bad_index \<and> first_violation rules_before_placeholders bad_index = Some success
            \<and> getErrorMessage bad_index = Some ''bad value {0}, expected {1}''
            \<and> data_cstr ''bad value {0}, expected {1}'' = ''bad value {0}, expected {1}''
            \<and> length (op_operands bad_index) - 1 = 1
            \<longrightarrow> verifyShapeAssertion bad_index = check_format_specifiers 1 ''bad value {0}, expected {1}''
              \<and> shape_assertion_callback True bad_index initial_pass_state
       = Some (Some bad_index, emit_and_fail bad_index
                      (''expects error_message to contain format specifiers with ''
                        @ ''error_message_input index less than '' @ string_of_nat 1
                        @ ''. Found specifier '' @ [CHR ''{''] @ ''1'' @ [CHR ''}'']) initial_pass_state)"
    by (rule conjunct2)
  with g1 bad_index_rules g3 g4 g5
  have b: "shape_assertion_callback True bad_index initial_pass_state
       = Some (Some bad_index, emit_and_fail bad_index
                      (''expects error_message to contain format specifiers with ''
                        @ ''error_message_input index less than '' @ string_of_nat 1
                        @ ''. Found specifier '' @ [CHR ''{''] @ ''1'' @ [CHR ''}'']) initial_pass_state)"
    by blast
  have l: "(0::int) < int 1" by simp
  show ?thesis
    by (intro conjI m0 s0 l h2 h3 h4 g1 bad_index_rules g3 g4 g5 a b)
qed

subsection \<open>The number of inputs the formatter gets\<close>

lemma collect_error_message_inputs_length:
  "collect_error_message_inputs i vs = Some (Inr xs) \<Longrightarrow> length xs = length vs"
proof (induction vs arbitrary: i xs)
  case Nil
  then show ?case by simp
next
  case (Cons v vs)
  then show ?case
    by (auto split: option.splits list.splits sum.splits)
qed

lemma verifyShapeAssertion_operand_count:
  "verifyShapeAssertion op = Some success \<Longrightarrow>
   1 \<le> length (op_operands op) \<and> length (op_operands op) \<le> 5"
  by (simp add: verifyShapeAssertion_rules rules_before_placeholders_def rule_operand_count_def
      split: if_splits)

lemma verifyShapeAssertion_has_message:
  "verifyShapeAssertion op = Some success \<Longrightarrow> \<exists>m. getErrorMessage op = Some m"
proof (rule ccontr)
  assume v: "verifyShapeAssertion op = Some success" and "\<nexists>m. getErrorMessage op = Some m"
  then have n: "getErrorMessage op = None" by simp
  have "first_violation rules_before_placeholders op \<noteq> Some success"
  proof
    assume "first_violation rules_before_placeholders op = Some success"
    then have "verifyShapeAssertion op = rule_placeholders op"
      by (rule verifyShapeAssertion_placeholders)
    with v n show False by (simp add: rule_placeholders_def)
  qed
  with v show False
    by (simp add: verifyShapeAssertion_rules first_violation_append
        split: option.splits logical_result.splits)
qed

text \<open>
  C10. The callback formats the message only after \<^verbatim>\<open>verifyShapeAssertion\<close> has
  succeeded and the loop over the operands from index 1 on has resolved them all. The inputs
  are then as many as those operands, at most four, so the formatter takes one of its
  branches for zero to four inputs.
\<close>

theorem formatter_gets_at_most_four_inputs:
  assumes "verifyShapeAssertion op = Some success"
    and "collect_error_message_inputs 1 (tl (op_operands op)) = Some (Inr errorMessageInputs)"
  shows "length errorMessageInputs = length (op_operands op) - 1
         \<and> length errorMessageInputs \<le> maxErrorMessageInputs
         \<and> (\<exists>m. getErrorMessage op = Some m
              \<and> formatErrorMessage m errorMessageInputs
                  = (if errorMessageInputs = [] then data_cstr m
                     else formatv (data_cstr m) errorMessageInputs))"
proof -
  from assms(2) have l: "length errorMessageInputs = length (op_operands op) - 1"
    by (simp add: collect_error_message_inputs_length)
  from assms(1) have c: "length (op_operands op) \<le> 5"
    by (simp add: verifyShapeAssertion_operand_count)
  from l c have b: "length errorMessageInputs \<le> 4" by simp
  from assms(1) obtain m where m: "getErrorMessage op = Some m"
    using verifyShapeAssertion_has_message by blast
  from b have "formatErrorMessage m errorMessageInputs
      = (if errorMessageInputs = [] then data_cstr m else formatv (data_cstr m) errorMessageInputs)"
    by (cases errorMessageInputs) (simp_all add: formatErrorMessage_cases)
  with l b m show ?thesis by (simp add: maxErrorMessageInputs_def)
qed

lemma violated_verified: "verifyShapeAssertion violated = Some success"
  by code_simp

theorem formatter_gets_at_most_four_inputs_witness:
  "verifyShapeAssertion violated = Some success
   \<and> collect_error_message_inputs 1 (tl (op_operands violated)) = Some (Inr [3, 7])
   \<and> length [3, 7 :: int64] = length (op_operands violated) - 1
   \<and> length [3, 7 :: int64] \<le> maxErrorMessageInputs"
proof -
  have c: "collect_error_message_inputs 1 (tl (op_operands violated)) = Some (Inr [3, 7])"
    by code_simp
  from formatter_gets_at_most_four_inputs [OF violated_verified c] violated_verified c
  show ?thesis by blast
qed

subsection \<open>The walk of the pass\<close>

lemma thread_map_same_state:
  "(\<And>x st. x \<in> set xs \<Longrightarrow> F x st = Some (G x, st)) \<Longrightarrow>
   thread (map F xs) st = Some (map G xs, st)"
  by (induction xs) simp_all

lemma thread_preserves:
  "(\<And>f st x st'. f \<in> set fs \<Longrightarrow> f st = Some (x, st') \<Longrightarrow> Q st \<Longrightarrow> Q st') \<Longrightarrow>
   thread fs st = Some (xs, st') \<Longrightarrow> Q st \<Longrightarrow> Q st'"
proof (induction fs arbitrary: st xs)
  case Nil
  then show ?case by simp
next
  case (Cons f fs)
  from Cons.prems(2) obtain x st1 ys where
    f: "f st = Some (x, st1)" and r: "thread fs st1 = Some (ys, st')"
    by (auto split: option.splits prod.splits)
  have q1: "Q st1" using Cons.prems(1) [of f st x st1] f Cons.prems(3) by simp
  have "\<And>g s y s'. g \<in> set fs \<Longrightarrow> g s = Some (y, s') \<Longrightarrow> Q s \<Longrightarrow> Q s'"
    using Cons.prems(1) by (meson list.set_intros(2))
  then show ?case using Cons.IH r q1 by blast
qed

lemma is_marker_regions:
  "is_marker (Operation loc name operands results attrs regions)
     = is_marker (Operation loc name operands results attrs regions')"
  by (simp add: is_marker_def isCustomCallOp_def getCallTargetName_def getAttr_def)

lemma set_remaining: "set (remaining xs) = {x. Some x \<in> set xs}"
  by (induction xs) (auto simp: remaining_def map_filter_simps split: option.splits)

lemma callback_disabled:
  "shape_assertion_callback False op st
     = (if getCallTargetName op = shapeAssertionName then Some (None, st) else Some (Some op, st))"
  by (simp add: shape_assertion_callback_def)

lemma walk_disabled:
  shows "\<forall>st. walk_op False op st = Some (without_markers op, st)"
    and "\<forall>st. walk_region False r st = Some (region_without_markers r, st)"
    and "\<forall>st. walk_block False b st = Some (block_without_markers b, st)"
proof (induction op and r and b)
  case (Operation loc name operands results attrs regions)
  have t: "thread (map (walk_region False) regions) st = Some (map region_without_markers regions, st)"
    for st
    using Operation by (intro thread_map_same_state) simp
  show ?case
    by (simp add: t callback_disabled is_marker_def)
next
  case (Region blocks)
  have t: "thread (map (walk_block False) blocks) st = Some (map block_without_markers blocks, st)"
    for st
    using Region by (intro thread_map_same_state) simp
  show ?case by (simp add: t)
next
  case (Block args ops)
  have t: "thread (map (walk_op False) ops) st = Some (map without_markers ops, st)" for st
    using Block by (intro thread_map_same_state) simp
  show ?case by (simp add: t)
qed

lemma without_markers_clean:
  shows "\<forall>op'. without_markers op = Some op' \<longrightarrow> (\<forall>x \<in> set (all_ops op'). \<not> is_marker x)"
    and "\<forall>x \<in> set (region_ops (region_without_markers r)). \<not> is_marker x"
    and "\<forall>x \<in> set (nested_block_ops (block_without_markers b)). \<not> is_marker x"
proof (induction op and r and b)
  case (Operation loc name operands results attrs regions)
  then show ?case by (auto split: if_splits)
next
  case (Region blocks)
  then show ?case by auto
next
  case (Block args ops)
  then show ?case by (auto simp: set_remaining) metis
qed

lemma callback_failed_mono:
  "shape_assertion_callback enable op st = Some (r, st') \<Longrightarrow> pass_failed st \<Longrightarrow> pass_failed st'"
  by (auto simp: shape_assertion_callback_def emit_and_fail_def
      split: if_splits option.splits logical_result.splits list.splits sum.splits)

lemma walk_failed_mono:
  shows "\<forall>st r st'. walk_op enable op st = Some (r, st') \<longrightarrow> pass_failed st \<longrightarrow> pass_failed st'"
    and "\<forall>st r' st'. walk_region enable r st = Some (r', st') \<longrightarrow> pass_failed st \<longrightarrow> pass_failed st'"
    and "\<forall>st b' st'. walk_block enable b st = Some (b', st') \<longrightarrow> pass_failed st \<longrightarrow> pass_failed st'"
proof (induction op and r and b)
  case (Operation loc name operands results attrs regions)
  show ?case
  proof (intro allI impI)
    fix st r st'
    assume w: "walk_op enable (Operation loc name operands results attrs regions) st = Some (r, st')"
      and f: "pass_failed st"
    from w obtain regions' st1 where
      t: "thread (map (walk_region enable) regions) st = Some (regions', st1)"
      by (auto split: option.splits)
    have f1: "pass_failed st1"
      using thread_preserves [where Q = pass_failed, OF _ t f] Operation by auto
    from w t have "st' = st1 \<or> shape_assertion_callback enable
        (Operation loc name operands results attrs regions') st1 = Some (r, st')"
      by (auto split: if_splits)
    with f1 show "pass_failed st'"
      using callback_failed_mono by blast
  qed
next
  case (Region blocks)
  show ?case
  proof (intro allI impI)
    fix st r' st'
    assume w: "walk_region enable (Region blocks) st = Some (r', st')" and f: "pass_failed st"
    from w obtain blocks' where
      t: "thread (map (walk_block enable) blocks) st = Some (blocks', st')"
      by (auto split: option.splits)
    show "pass_failed st'"
      using thread_preserves [where Q = pass_failed, OF _ t f] Region by auto
  qed
next
  case (Block args ops)
  show ?case
  proof (intro allI impI)
    fix st b' st'
    assume w: "walk_block enable (Block args ops) st = Some (b', st')" and f: "pass_failed st"
    from w obtain ops' where
      t: "thread (map (walk_op enable) ops) st = Some (ops', st')"
      by (auto split: option.splits)
    show "pass_failed st'"
      using thread_preserves [where Q = pass_failed, OF _ t f] Block by auto
  qed
qed

lemma walk_op_no_regions:
  "op_regions op = [] \<Longrightarrow>
   walk_op enable op st
     = (if isCustomCallOp op then shape_assertion_callback enable op st else Some (Some op, st))"
  by (cases op) simp

lemma walk_block_Cons:
  "walk_block enable (Block args (x # ops)) st =
     (case walk_op enable x st of
        None \<Rightarrow> None
      | Some (r, st') \<Rightarrow>
          (case walk_block enable (Block args ops) st' of
             None \<Rightarrow> None
           | Some (b, st'') \<Rightarrow>
               Some (Block args (case r of None \<Rightarrow> block_ops b | Some x' \<Rightarrow> x' # block_ops b), st'')))"
  by (simp add: remaining_def split: option.splits prod.splits)

lemma walk_block_args:
  "walk_block enable (Block args ops) st = Some (b, st') \<Longrightarrow> Block args (block_ops b) = b"
  by (auto split: option.splits)

subsection \<open>Assertions disabled\<close>

text \<open>
  C7. With assertions disabled the walk removes every shape assertion and nothing else,
  whatever the assertion looks like: the result is the operation without its shape
  assertions, for every operation, and none is left in it. The walk never aborts, emits
  no diagnostic and leaves the pass not failed: \<^verbatim>\<open>verifyShapeAssertion\<close> and
  \<^verbatim>\<open>matchInts\<close> take no part in the result.
\<close>

theorem disabled_erases_every_assertion:
  "walk_op False op st = Some (without_markers op, st)
   \<and> runOnOperation False op = Some (without_markers op, \<lparr>emitted = [], pass_failed = False\<rparr>)
   \<and> (\<forall>op'. without_markers op = Some op' \<longrightarrow> (\<forall>x \<in> set (all_ops op'). \<not> is_marker x))
   \<and> (is_marker op \<longrightarrow> walk_op False op st = Some (None, st))"
proof -
  have a: "walk_op False op st = Some (without_markers op, st)" for st
    using walk_disabled(1) by simp
  have b: "is_marker op \<longrightarrow> without_markers op = None"
  proof (cases op)
    case (Operation loc name operands results attrs regions)
    then show ?thesis
      using is_marker_regions [of loc name operands results attrs regions
          "map region_without_markers regions"]
      by simp
  qed
  from a b without_markers_clean(1) [of op] show ?thesis
    by (simp add: runOnOperation_def initial_pass_state_def)
qed

theorem disabled_erases_every_assertion_witness:
  "runOnOperation False (example_func [six_operands, holds, example_add, violated])
     = Some (Some (example_func [example_add]), \<lparr>emitted = [], pass_failed = False\<rparr>)
   \<and> filter is_marker (all_ops (example_func [example_add])) = []
   \<and> is_marker six_operands
   \<and> walk_op False six_operands initial_pass_state = Some (None, initial_pass_state)"
proof -
  have w: "without_markers (example_func [six_operands, holds, example_add, violated])
      = Some (example_func [example_add])"
    by code_simp
  have m: "is_marker six_operands" by (simp add: six_operands_def is_marker_example)
  from disabled_erases_every_assertion
    [of "example_func [six_operands, holds, example_add, violated]" initial_pass_state]
  have "runOnOperation False (example_func [six_operands, holds, example_add, violated])
     = Some (Some (example_func [example_add]), \<lparr>emitted = [], pass_failed = False\<rparr>)
   \<and> filter is_marker (all_ops (example_func [example_add])) = []"
    by (simp add: w filter_empty_conv)
  moreover from disabled_erases_every_assertion [of six_operands initial_pass_state] m
  have "walk_op False six_operands initial_pass_state = Some (None, initial_pass_state)"
    by blast
  ultimately show ?thesis using m by blast
qed

subsection \<open>Assertions enabled: a constant predicate\<close>





subsection \<open>Assertions enabled: an ill-formed assertion\<close>

text \<open>
  C1, as the specification has it, fails: after the assertion with six operands has failed
  the check, the walk erases the assertion that holds and reports the violated one.
\<close>

theorem walk_goes_on_after_ill_formed_assertion:
  "verifyShapeAssertion six_operands = Some (failure ''expects 1 <= size(operands) <= 5'')
   \<and> runOnOperation True (example_func [six_operands, holds, violated])
       = Some (Some (example_func [six_operands, violated]),
               \<lparr>emitted = [Diagnostic ''a.mlir:1'' ''expects 1 <= size(operands) <= 5'',
                           Diagnostic ''a.mlir:3'' ''bad value 3, expected 7''],
                pass_failed = True\<rparr>)"
  by code_simp

text \<open>
  C1, amended. When the check of a shape assertion fails, the callback records the
  diagnostic of the check on it, marks the pass failed and keeps the operation, whose
  operands it does not evaluate. The walk then goes on (the assertion being a custom call
  without regions, as in StableHLO): the rest of the block is walked from that state as it
  would be from any other, and the pass is failed at the end.
\<close>

theorem ill_formed_assertion_kept_and_walk_goes_on:
  assumes "is_marker m" and "verifyShapeAssertion m = Some (failure d)"
  shows "shape_assertion_callback True m st
           = Some (Some m, st\<lparr>emitted := emitted st @ [Diagnostic (op_loc m) d], pass_failed := True\<rparr>)
    \<and> (op_regions m = [] \<longrightarrow>
        walk_block True (Block args (m # ops)) st
          = (case walk_block True (Block args ops)
                   (st\<lparr>emitted := emitted st @ [Diagnostic (op_loc m) d], pass_failed := True\<rparr>) of
               None \<Rightarrow> None
             | Some (b, st') \<Rightarrow> Some (Block args (m # block_ops b), st'))
        \<and> (walk_block True (Block args (m # ops)) st = Some (b', st'') \<longrightarrow> pass_failed st''))"
proof -
  let ?st1 = "st\<lparr>emitted := emitted st @ [Diagnostic (op_loc m) d], pass_failed := True\<rparr>"
  have c: "shape_assertion_callback True m st = Some (Some m, ?st1)"
    using assms callback_verify_failure [of m d st]
    by (simp add: emit_and_fail_def emitError_def)
  have rest: "walk_block True (Block args (m # ops)) st
          = (case walk_block True (Block args ops) ?st1 of
               None \<Rightarrow> None
             | Some (b, st') \<Rightarrow> Some (Block args (m # block_ops b), st'))
        \<and> (walk_block True (Block args (m # ops)) st = Some (b', st'') \<longrightarrow> pass_failed st'')"
    if nr: "op_regions m = []"
  proof -
    from nr c assms(1) have w: "walk_op True m st = Some (Some m, ?st1)"
      by (simp add: walk_op_no_regions is_marker_def)
    then have blk: "walk_block True (Block args (m # ops)) st
        = (case walk_block True (Block args ops) ?st1 of
             None \<Rightarrow> None
           | Some (b, st') \<Rightarrow> Some (Block args (m # block_ops b), st'))"
      by (subst walk_block_Cons) (simp only: option.case prod.case)
    have "pass_failed st''" if r: "walk_block True (Block args (m # ops)) st = Some (b', st'')"
    proof -
      from r blk obtain b where "walk_block True (Block args ops) ?st1 = Some (b, st'')"
        by (auto split: option.splits)
      moreover have "pass_failed ?st1" by simp
      ultimately show ?thesis using walk_failed_mono(3) by blast
    qed
    with blk show ?thesis by blast
  qed
  from c rest show ?thesis by blast
qed

theorem ill_formed_assertion_kept_and_walk_goes_on_witness:
  "is_marker six_operands \<and> op_regions six_operands = []
   \<and> verifyShapeAssertion six_operands = Some (failure ''expects 1 <= size(operands) <= 5'')
   \<and> shape_assertion_callback True six_operands initial_pass_state
       = Some (Some six_operands,
           initial_pass_state\<lparr>emitted := emitted initial_pass_state
               @ [Diagnostic (op_loc six_operands) ''expects 1 <= size(operands) <= 5''],
             pass_failed := True\<rparr>)
   \<and> walk_block True (Block [] [six_operands, holds]) initial_pass_state
       = (case walk_block True (Block [] [holds])
                 (initial_pass_state\<lparr>emitted := emitted initial_pass_state
                     @ [Diagnostic (op_loc six_operands) ''expects 1 <= size(operands) <= 5''],
                   pass_failed := True\<rparr>) of
               None \<Rightarrow> None
             | Some (b, st') \<Rightarrow> Some (Block [] (six_operands # block_ops b), st'))"
proof -
  have m: "is_marker six_operands" by (simp add: six_operands_def is_marker_example)
  have r: "op_regions six_operands = []" by (simp add: six_operands_def example_assertion_def)
  have v: "verifyShapeAssertion six_operands = Some (failure ''expects 1 <= size(operands) <= 5'')"
    by (rule six_operands_rejected) (simp add: six_operands_def example_assertion_def)
  from ill_formed_assertion_kept_and_walk_goes_on [OF m v, of initial_pass_state "[]" "[holds]"] m r v
  show ?thesis by blast
qed

subsection \<open>The static-shape audit\<close>

lemma audit_after_Nil: "audit_after st [] = st"
  by (simp add: audit_after_def)

lemma audit_after_append: "audit_after (audit_after st xs) ys = audit_after st (xs @ ys)"
  by (simp add: audit_after_def)

lemma audit_callback_after: "audit_callback op st = audit_after st [op]"
  by (cases st) (auto simp: audit_callback_def audit_after_def audit_diagnostics_of_def is_marker_def Let_def)

lemma fold_visits:
  "(\<And>x st. x \<in> set xs \<Longrightarrow> F x st = audit_after st (G x)) \<Longrightarrow>
   fold (\<lambda>visit s. visit s) (map F xs) st = audit_after st (concat (map G xs))"
proof (induction xs arbitrary: st)
  case Nil
  then show ?case by (simp add: audit_after_Nil)
next
  case (Cons x xs)
  have "fold (\<lambda>visit s. visit s) (map F xs) (audit_after st (G x))
      = audit_after (audit_after st (G x)) (concat (map G xs))"
    using Cons.prems by (intro Cons.IH) simp
  with Cons.prems show ?case by (simp add: audit_after_append)
qed

lemma audit_walk_after:
  shows "\<forall>st. audit_walk_op op st = audit_after st (all_ops op)"
    and "\<forall>st. audit_walk_region r st = audit_after st (region_ops r)"
    and "\<forall>st. audit_walk_block b st = audit_after st (nested_block_ops b)"
proof (induction op and r and b)
  case (Operation loc name operands results attrs regions)
  have "fold (\<lambda>visit s. visit s) (map audit_walk_region regions) st
      = audit_after st (concat (map region_ops regions))" for st
    using Operation by (intro fold_visits) simp
  then show ?case by (simp add: audit_callback_after audit_after_append)
next
  case (Region blocks)
  have "fold (\<lambda>visit s. visit s) (map audit_walk_block blocks) st
      = audit_after st (concat (map nested_block_ops blocks))" for st
    using Region by (intro fold_visits) simp
  then show ?case by simp
next
  case (Block args ops)
  have "fold (\<lambda>visit s. visit s) (map audit_walk_op ops) st
      = audit_after st (concat (map all_ops ops))" for st
    using Block by (intro fold_visits) simp
  then show ?case by simp
qed

lemma ValidateStaticShapes_all_ops:
  "ValidateStaticShapes module =
     (if list_ex opHasDynamicShapes (all_ops module)
      then InvalidArgumentError (''Module has dynamic shapes: ''
             @ ConsumeStatus_text (concat (map audit_diagnostics_of (all_ops module))))
      else if list_ex is_marker (all_ops module)
      then InvalidArgumentError (''Module has residual shape assertions: ''
             @ ConsumeStatus_text (concat (map audit_diagnostics_of (all_ops module))))
      else OkStatus)"
  using audit_walk_after(1) [of module]
  by (simp add: ValidateStaticShapes_def Let_def audit_after_def initial_audit_state_def)

lemma ConsumeStatus_text_holds:
  "d \<in> set ds \<Longrightarrow> \<exists>p q. ConsumeStatus_text ds = p @ diagnostic_line d @ q"
proof -
  assume "d \<in> set ds"
  then obtain xs ys where "ds = xs @ d # ys" by (meson split_list)
  then have "ConsumeStatus_text ds
      = ConsumeStatus_text xs @ diagnostic_line d @ ConsumeStatus_text ys"
    by (simp add: ConsumeStatus_text_def)
  then show ?thesis by blast
qed

text \<open>
  C2. The module holds an operation \<open>x\<close> with a dynamic-shaped result or region argument
  and a shape assertion \<open>y\<close>. One call of \<^verbatim>\<open>ValidateStaticShapes\<close> returns one failure.
  Its text is the heading \<^verbatim>\<open>Module has dynamic shapes: \<close> followed by the diagnostics of
  the whole walk: for every operation of the module with dynamic shapes the diagnostic
  \<^verbatim>\<open>has dynamic shapes\<close> on it, and for every shape assertion of the module the diagnostic
  \<^verbatim>\<open>has residual shape assertions\<close> on it. The text therefore holds the line of the
  diagnostic on \<open>x\<close> and the line of the diagnostic on \<open>y\<close>.
\<close>

theorem audit_reports_both_conditions:
  assumes "x \<in> set (all_ops module)" and "opHasDynamicShapes x"
    and "y \<in> set (all_ops module)" and "is_marker y"
  shows "ValidateStaticShapes module
           = InvalidArgumentError (''Module has dynamic shapes: ''
               @ ConsumeStatus_text (concat (map audit_diagnostics_of (all_ops module))))
    \<and> (\<forall>z \<in> set (all_ops module). opHasDynamicShapes z \<longrightarrow>
          emitOpError z ''has dynamic shapes''
            \<in> set (concat (map audit_diagnostics_of (all_ops module))))
    \<and> (\<forall>z \<in> set (all_ops module). is_marker z \<longrightarrow>
          emitOpError z ''has residual shape assertions''
            \<in> set (concat (map audit_diagnostics_of (all_ops module))))
    \<and> (\<exists>p q. ValidateStaticShapes module
          = InvalidArgumentError (p @ diagnostic_line (emitOpError x ''has dynamic shapes'') @ q))
    \<and> (\<exists>p q. ValidateStaticShapes module
          = InvalidArgumentError (p @ diagnostic_line (emitOpError y ''has residual shape assertions'') @ q))"
proof -
  let ?ds = "concat (map audit_diagnostics_of (all_ops module))"
  have dyn: "list_ex opHasDynamicShapes (all_ops module)"
    using assms(1) assms(2) by (auto simp: list_ex_iff)
  then have v: "ValidateStaticShapes module
      = InvalidArgumentError (''Module has dynamic shapes: '' @ ConsumeStatus_text ?ds)"
    by (simp add: ValidateStaticShapes_all_ops)
  have d: "emitOpError z ''has dynamic shapes'' \<in> set ?ds"
    if "z \<in> set (all_ops module)" "opHasDynamicShapes z" for z
    using that by (auto simp: audit_diagnostics_of_def)
  have m: "emitOpError z ''has residual shape assertions'' \<in> set ?ds"
    if "z \<in> set (all_ops module)" "is_marker z" for z
    using that by (auto simp: audit_diagnostics_of_def)
  from ConsumeStatus_text_holds [OF d [OF assms(1) assms(2)]] obtain p q where
    "ConsumeStatus_text ?ds = p @ diagnostic_line (emitOpError x ''has dynamic shapes'') @ q"
    by blast
  with v have px: "ValidateStaticShapes module = InvalidArgumentError
      ((''Module has dynamic shapes: '' @ p) @ diagnostic_line (emitOpError x ''has dynamic shapes'') @ q)"
    by simp
  from ConsumeStatus_text_holds [OF m [OF assms(3) assms(4)]] obtain p' q' where
    "ConsumeStatus_text ?ds = p' @ diagnostic_line (emitOpError y ''has residual shape assertions'') @ q'"
    by blast
  with v have py: "ValidateStaticShapes module = InvalidArgumentError
      ((''Module has dynamic shapes: '' @ p') @ diagnostic_line (emitOpError y ''has residual shape assertions'') @ q')"
    by simp
  from v d m px py show ?thesis by blast
qed

theorem audit_reports_both_conditions_witness:
  "example_add \<in> set (all_ops (example_module [example_func [example_add, violated]]))
   \<and> opHasDynamicShapes example_add
   \<and> violated \<in> set (all_ops (example_module [example_func [example_add, violated]]))
   \<and> is_marker violated
   \<and> ValidateStaticShapes (example_module [example_func [example_add, violated]])
       = InvalidArgumentError (''Module has dynamic shapes: ''
           @ ConsumeStatus_text
               [Diagnostic ''a.mlir:5'' ([CHR 0x27] @ ''stablehlo.add'' @ [CHR 0x27] @ '' op has dynamic shapes''),
                Diagnostic ''a.mlir:3'' ([CHR 0x27] @ ''stablehlo.custom_call'' @ [CHR 0x27]
                   @ '' op has residual shape assertions'')])"
proof -
  let ?m = "example_module [example_func [example_add, violated]]"
  have ops: "all_ops ?m = [example_add, violated, example_func [example_add, violated], ?m]"
    by (simp add: example_module_def example_func_def example_add_def violated_def example_assertion_def)
  have a: "example_add \<in> set (all_ops ?m)" by (simp add: ops)
  have b: "opHasDynamicShapes example_add" by code_simp
  have c: "violated \<in> set (all_ops ?m)" by (simp add: ops)
  have d: "is_marker violated" by (simp add: violated_def is_marker_example)
  have e: "concat (map audit_diagnostics_of (all_ops ?m))
      = [Diagnostic ''a.mlir:5'' ([CHR 0x27] @ ''stablehlo.add'' @ [CHR 0x27] @ '' op has dynamic shapes''),
         Diagnostic ''a.mlir:3'' ([CHR 0x27] @ ''stablehlo.custom_call'' @ [CHR 0x27]
                   @ '' op has residual shape assertions'')]"
    by code_simp
  from audit_reports_both_conditions [OF a b c d]
  have "ValidateStaticShapes ?m = InvalidArgumentError (''Module has dynamic shapes: ''
               @ ConsumeStatus_text (concat (map audit_diagnostics_of (all_ops ?m))))"
    by (rule conjunct1)
  then have f: "ValidateStaticShapes ?m = InvalidArgumentError (''Module has dynamic shapes: ''
           @ ConsumeStatus_text
               [Diagnostic ''a.mlir:5'' ([CHR 0x27] @ ''stablehlo.add'' @ [CHR 0x27] @ '' op has dynamic shapes''),
                Diagnostic ''a.mlir:3'' ([CHR 0x27] @ ''stablehlo.custom_call'' @ [CHR 0x27]
                   @ '' op has residual shape assertions'')])"
    by (simp only: e)
  show ?thesis by (intro conjI a b c d f)
qed

subsection \<open>The orchestrator\<close>

lemma pm_run_stops:
  "pm_run before module ds = Some (True, m1, ds1) \<Longrightarrow> step m1 = Some (False, m2, ds2) \<Longrightarrow>
   pm_run (before @ step # later) module ds = Some (False, m2, ds1 @ ds2)"
proof (induction before arbitrary: module ds)
  case Nil
  then show ?case by simp
next
  case (Cons p ps)
  from Cons.prems(1) obtain m' ds' where
    p: "p module = Some (True, m', ds')" and r: "pm_run ps m' (ds @ ds') = Some (True, m1, ds1)"
    by (auto split: option.splits if_splits)
  from Cons.IH [OF r Cons.prems(2)] p show ?case by simp
qed

lemma pm_run_failed:
  "pm_run ps module ds = Some (False, m2, dsx) \<Longrightarrow>
   \<exists>before step later m1 ds1 ds2. ps = before @ step # later
      \<and> pm_run before module ds = Some (True, m1, ds1)
      \<and> step m1 = Some (False, m2, ds2) \<and> dsx = ds1 @ ds2"
proof (induction ps arbitrary: module ds)
  case Nil
  then show ?case by simp
next
  case (Cons p ps)
  from Cons.prems obtain ok m' ds' where p: "p module = Some (ok, m', ds')"
    by (auto split: option.splits)
  show ?case
  proof (cases ok)
    case False
    with Cons.prems p have "m2 = m'" "dsx = ds @ ds'" by simp_all
    with p False have "p # ps = [] @ p # ps \<and> pm_run [] module ds = Some (True, module, ds)
        \<and> p module = Some (False, m2, ds') \<and> dsx = ds @ ds'"
      by simp
    then show ?thesis by blast
  next
    case True
    with Cons.prems p have "pm_run ps m' (ds @ ds') = Some (False, m2, dsx)" by simp
    from Cons.IH [OF this] obtain before step later m1 ds1 ds2 where
      h: "ps = before @ step # later" "pm_run before m' (ds @ ds') = Some (True, m1, ds1)"
        "step m1 = Some (False, m2, ds2)" "dsx = ds1 @ ds2"
      by blast
    with p True have "p # ps = (p # before) @ step # later
        \<and> pm_run (p # before) module ds = Some (True, m1, ds1)
        \<and> step m1 = Some (False, m2, ds2) \<and> dsx = ds1 @ ds2"
      by simp
    then show ?thesis by blast
  qed
qed

text \<open>
  C8. The orchestrator verifies the module first. If the verification fails it returns the
  failure \<^verbatim>\<open>Module verification failed\<close> with the verifier's diagnostics and the module
  as it was: no pass has a part in the result. If the verification succeeds and, the steps
  \<open>before\<close> having succeeded, the next step fails, it returns the one failure
  \<^verbatim>\<open>Module shape refinement failed\<close> with the diagnostics gathered so far and the module as
  the failing step left it, whatever the steps \<open>later\<close> are. If all steps succeed, the
  result is that of \<^verbatim>\<open>ValidateStaticShapes\<close> on the module the last step left. These are
  all the ways the call returns.
\<close>

theorem orchestrator_stops_at_first_failure:
  "(\<not> fst (mlir_verify ext module) \<longrightarrow>
      RefinePolymorphicShapes ext module enable
        = Some (InvalidArgumentError (''Module verification failed: ''
                  @ ConsumeStatus_text (snd (mlir_verify ext module))), module))
   \<and> (fst (mlir_verify ext module) \<and> pipeline ext enable = before @ step # later
        \<and> pm_run before module (snd (mlir_verify ext module)) = Some (True, m1, ds1)
        \<and> step m1 = Some (False, m2, ds2) \<longrightarrow>
      RefinePolymorphicShapes ext module enable
        = Some (InvalidArgumentError (''Module shape refinement failed: ''
                  @ ConsumeStatus_text (ds1 @ ds2)), m2))
   \<and> (fst (mlir_verify ext module)
        \<and> pm_run (pipeline ext enable) module (snd (mlir_verify ext module)) = Some (True, m', ds) \<longrightarrow>
      RefinePolymorphicShapes ext module enable = Some (ValidateStaticShapes m', m'))
   \<and> (RefinePolymorphicShapes ext module enable = Some (result, left) \<longrightarrow>
        (\<not> fst (mlir_verify ext module) \<and> left = module
           \<and> result = InvalidArgumentError (''Module verification failed: ''
                  @ ConsumeStatus_text (snd (mlir_verify ext module))))
        \<or> (\<exists>before step later m1 ds1 ds2.
              fst (mlir_verify ext module) \<and> pipeline ext enable = before @ step # later
              \<and> pm_run before module (snd (mlir_verify ext module)) = Some (True, m1, ds1)
              \<and> step m1 = Some (False, left, ds2)
              \<and> result = InvalidArgumentError (''Module shape refinement failed: ''
                  @ ConsumeStatus_text (ds1 @ ds2)))
        \<or> (\<exists>ds. fst (mlir_verify ext module)
              \<and> pm_run (pipeline ext enable) module (snd (mlir_verify ext module)) = Some (True, left, ds)
              \<and> result = ValidateStaticShapes left))"
proof -
  obtain verified vds where v: "mlir_verify ext module = (verified, vds)"
    by (cases "mlir_verify ext module")
  have a: "\<not> verified \<longrightarrow> RefinePolymorphicShapes ext module enable
        = Some (InvalidArgumentError (''Module verification failed: '' @ ConsumeStatus_text vds), module)"
    by (simp add: RefinePolymorphicShapes_def v)
  have b: "RefinePolymorphicShapes ext module enable
        = Some (InvalidArgumentError (''Module shape refinement failed: ''
                  @ ConsumeStatus_text (ds1 @ ds2)), m2)"
    if "verified" "pipeline ext enable = before @ step # later"
      "pm_run before module vds = Some (True, m1, ds1)" "step m1 = Some (False, m2, ds2)"
  proof -
    from pm_run_stops [where step = step and later = later, OF that(3) that(4)] that(2)
    have "pm_run (pipeline ext enable) module vds = Some (False, m2, ds1 @ ds2)" by simp
    with that(1) show ?thesis by (simp add: RefinePolymorphicShapes_def v)
  qed
  have c: "RefinePolymorphicShapes ext module enable = Some (ValidateStaticShapes m', m')"
    if "verified" "pm_run (pipeline ext enable) module vds = Some (True, m', ds)"
    using that by (simp add: RefinePolymorphicShapes_def v)
  have d: "(\<not> verified \<and> left = module
           \<and> result = InvalidArgumentError (''Module verification failed: '' @ ConsumeStatus_text vds))
        \<or> (\<exists>before step later m1 ds1 ds2.
              verified \<and> pipeline ext enable = before @ step # later
              \<and> pm_run before module vds = Some (True, m1, ds1)
              \<and> step m1 = Some (False, left, ds2)
              \<and> result = InvalidArgumentError (''Module shape refinement failed: ''
                  @ ConsumeStatus_text (ds1 @ ds2)))
        \<or> (\<exists>ds. verified \<and> pm_run (pipeline ext enable) module vds = Some (True, left, ds)
              \<and> result = ValidateStaticShapes left)"
    if r: "RefinePolymorphicShapes ext module enable = Some (result, left)"
  proof (cases verified)
    case False
    with r show ?thesis by (simp add: RefinePolymorphicShapes_def v)
  next
    case True
    with r obtain ok dsx where p: "pm_run (pipeline ext enable) module vds = Some (ok, left, dsx)"
      by (auto simp: RefinePolymorphicShapes_def v split: option.splits if_splits)
    show ?thesis
    proof (cases ok)
      case ok: True
      with p r True have "result = ValidateStaticShapes left"
        by (simp add: RefinePolymorphicShapes_def v)
      with p ok True have "verified \<and> pm_run (pipeline ext enable) module vds = Some (True, left, dsx)
              \<and> result = ValidateStaticShapes left"
        by simp
      then have "\<exists>ds. verified \<and> pm_run (pipeline ext enable) module vds = Some (True, left, ds)
              \<and> result = ValidateStaticShapes left"
        by (rule exI)
      then show ?thesis by (intro disjI2)
    next
      case nok: False
      with p r True have res: "result = InvalidArgumentError (''Module shape refinement failed: ''
                  @ ConsumeStatus_text dsx)"
        by (simp add: RefinePolymorphicShapes_def v)
      from p nok have "pm_run (pipeline ext enable) module vds = Some (False, left, dsx)" by simp
      from pm_run_failed [OF this] obtain before step later m1 ds1 ds2 where
        h: "pipeline ext enable = before @ step # later"
          "pm_run before module vds = Some (True, m1, ds1)"
          "step m1 = Some (False, left, ds2)" "dsx = ds1 @ ds2"
        by (elim exE conjE)
      from h res True have "verified \<and> pipeline ext enable = before @ step # later
              \<and> pm_run before module vds = Some (True, m1, ds1)
              \<and> step m1 = Some (False, left, ds2)
              \<and> result = InvalidArgumentError (''Module shape refinement failed: ''
                  @ ConsumeStatus_text (ds1 @ ds2))"
        by simp
      then have "\<exists>before step later m1 ds1 ds2.
              verified \<and> pipeline ext enable = before @ step # later
              \<and> pm_run before module vds = Some (True, m1, ds1)
              \<and> step m1 = Some (False, left, ds2)
              \<and> result = InvalidArgumentError (''Module shape refinement failed: ''
                  @ ConsumeStatus_text (ds1 @ ds2))"
        by (intro exI)
      then show ?thesis by (intro disjI2 disjI1)
    qed
  qed
  have b': "verified \<and> pipeline ext enable = before @ step # later
        \<and> pm_run before module vds = Some (True, m1, ds1)
        \<and> step m1 = Some (False, m2, ds2) \<longrightarrow>
      RefinePolymorphicShapes ext module enable
        = Some (InvalidArgumentError (''Module shape refinement failed: ''
                  @ ConsumeStatus_text (ds1 @ ds2)), m2)"
    using b by (intro impI) (elim conjE)
  have c': "verified \<and> pm_run (pipeline ext enable) module vds = Some (True, m', ds) \<longrightarrow>
      RefinePolymorphicShapes ext module enable = Some (ValidateStaticShapes m', m')"
    using c by (intro impI) (elim conjE)
  show ?thesis
    unfolding v fst_conv snd_conv
    by (intro conjI a b' c' impI d)
qed

theorem orchestrator_stops_at_first_failure_witness:
  "RefinePolymorphicShapes (example_passes False True) (example_module [example_func [holds]]) True
        = Some (InvalidArgumentError (''Module verification failed: ''
                  @ ConsumeStatus_text [Diagnostic ''a.mlir'' ''invalid'']),
                example_module [example_func [holds]])
   \<and> RefinePolymorphicShapes (example_passes True False) (example_module [example_func [holds]]) True
        = Some (InvalidArgumentError (''Module shape refinement failed: ''
                  @ ConsumeStatus_text ([] @ [Diagnostic ''a.mlir'' ''cse failed''])),
                example_module [example_func [holds]])
   \<and> RefinePolymorphicShapes (example_passes True True) (example_module [example_func [holds]]) True
        = Some (ValidateStaticShapes (example_module [example_func []]), example_module [example_func []])"
proof -
  let ?m = "example_module [example_func [holds]]"
  have loc: "op_loc ?m = ''a.mlir''" by (simp add: example_module_def)
  have v1: "\<not> fst (mlir_verify (example_passes False True) ?m)"
    and s1: "snd (mlir_verify (example_passes False True) ?m) = [Diagnostic ''a.mlir'' ''invalid'']"
    by (simp_all add: example_passes_def loc)
  from orchestrator_stops_at_first_failure [of "example_passes False True" ?m True] v1
  have a: "RefinePolymorphicShapes (example_passes False True) ?m True
        = Some (InvalidArgumentError (''Module verification failed: ''
                  @ ConsumeStatus_text [Diagnostic ''a.mlir'' ''invalid'']), ?m)"
    unfolding s1 by blast
  let ?e = "example_passes True False"
  have v2: "fst (mlir_verify ?e ?m)" and s2: "snd (mlir_verify ?e ?m) = []"
    by (simp_all add: example_passes_def)
  have p2: "pipeline ?e True = [InlinerPass ?e] @ CSEPass ?e
      # [StablehloRefineShapesPass ?e, nested_pass ?e (StablehloCanonicalizeDynamismPass ?e),
         nested_pass ?e (CheckShapeAssertionsPass True)]"
    by (simp add: pipeline_def)
  have b2: "pm_run [InlinerPass ?e] ?m (snd (mlir_verify ?e ?m)) = Some (True, ?m, [])"
    by (simp add: example_passes_def)
  have c2: "CSEPass ?e ?m = Some (False, ?m, [Diagnostic ''a.mlir'' ''cse failed''])"
    by (simp add: example_passes_def loc)
  from orchestrator_stops_at_first_failure [of ?e ?m True "[InlinerPass ?e]" "CSEPass ?e" _ ?m "[]" ?m
      "[Diagnostic ''a.mlir'' ''cse failed'']"] v2 p2 b2 c2
  have b: "RefinePolymorphicShapes ?e ?m True
        = Some (InvalidArgumentError (''Module shape refinement failed: ''
                  @ ConsumeStatus_text ([] @ [Diagnostic ''a.mlir'' ''cse failed''])), ?m)"
    by blast
  let ?g = "example_passes True True"
  have v3: "fst (mlir_verify ?g ?m)" and s3: "snd (mlir_verify ?g ?m) = []"
    by (simp_all add: example_passes_def)
  have p3: "pm_run (pipeline ?g True) ?m [] = Some (True, example_module [example_func []], [])"
    by code_simp
  from orchestrator_stops_at_first_failure [of ?g ?m True _ _ _ _ _ _ _ "example_module [example_func []]" "[]"]
    v3 p3
  have c: "RefinePolymorphicShapes ?g ?m True
        = Some (ValidateStaticShapes (example_module [example_func []]), example_module [example_func []])"
    unfolding s3 by blast
  show ?thesis by (intro conjI a b c)
qed

subsection \<open>Modules without shape assertions and without dynamic shapes\<close>

lemma remaining_map_Some: "remaining (map Some xs) = xs"
  by (induction xs) (simp_all add: remaining_def)

lemma walk_without_markers:
  shows "(\<forall>x \<in> set (all_ops op). \<not> is_marker x) \<longrightarrow> (\<forall>st. walk_op enable op st = Some (Some op, st))"
    and "(\<forall>x \<in> set (region_ops r). \<not> is_marker x) \<longrightarrow> (\<forall>st. walk_region enable r st = Some (r, st))"
    and "(\<forall>x \<in> set (nested_block_ops b). \<not> is_marker x) \<longrightarrow> (\<forall>st. walk_block enable b st = Some (b, st))"
proof (induction op and r and b)
  case (Operation loc name operands results attrs regions)
  show ?case
  proof (intro impI allI)
    fix st
    assume h: "\<forall>x \<in> set (all_ops (Operation loc name operands results attrs regions)). \<not> is_marker x"
    then have "\<And>x st. x \<in> set regions \<Longrightarrow> walk_region enable x st = Some (x, st)"
      using Operation by auto
    then have "thread (map (walk_region enable) regions) st = Some (map (\<lambda>x. x) regions, st)"
      by (intro thread_map_same_state) simp
    moreover from h have "\<not> is_marker (Operation loc name operands results attrs regions)" by simp
    ultimately show "walk_op enable (Operation loc name operands results attrs regions) st
        = Some (Some (Operation loc name operands results attrs regions), st)"
      by (auto simp: is_marker_def shape_assertion_callback_def)
  qed
next
  case (Region blocks)
  show ?case
  proof (intro impI allI)
    fix st
    assume "\<forall>x \<in> set (region_ops (Region blocks)). \<not> is_marker x"
    then have "\<And>x st. x \<in> set blocks \<Longrightarrow> walk_block enable x st = Some (x, st)"
      using Region by auto
    then have "thread (map (walk_block enable) blocks) st = Some (map (\<lambda>x. x) blocks, st)"
      by (intro thread_map_same_state) simp
    then show "walk_region enable (Region blocks) st = Some (Region blocks, st)" by simp
  qed
next
  case (Block args ops)
  show ?case
  proof (intro impI allI)
    fix st
    assume "\<forall>x \<in> set (nested_block_ops (Block args ops)). \<not> is_marker x"
    then have "\<And>x st. x \<in> set ops \<Longrightarrow> walk_op enable x st = Some (Some x, st)"
      using Block by auto
    then have "thread (map (walk_op enable) ops) st = Some (map Some ops, st)"
      by (intro thread_map_same_state) simp
    then show "walk_block enable (Block args ops) st = Some (Block args ops, st)"
      by (simp add: remaining_map_Some)
  qed
qed

lemma check_pass_without_markers:
  "\<forall>x \<in> set (all_ops func_op). \<not> is_marker x \<Longrightarrow>
   CheckShapeAssertionsPass enable func_op = Some (True, func_op, [])"
  using walk_without_markers(1) [of func_op enable]
  by (simp add: CheckShapeAssertionsPass_def runOnOperation_def initial_pass_state_def)

lemma audit_succeeds_iff:
  "ValidateStaticShapes module = OkStatus
     \<longleftrightarrow> (\<forall>x \<in> set (all_ops module). \<not> opHasDynamicShapes x \<and> \<not> is_marker x)"
  by (auto simp: ValidateStaticShapes_all_ops list_ex_iff)

end
